theory Spec2Isabelle
  imports Complex_Main "HOL-Library.Sublist" "HOL-Library.Product_Lexorder"
    "HOL-Library.Log_Nat" "HOL-Library.Multiset"
begin

section \<open>Data model\<close>

text \<open>
  Modelled from the spec: \<^verbatim>\<open>models/schemas.py\<close> (the declarations of
  \<^verbatim>\<open>SeverityLevel\<close>, \<^verbatim>\<open>FlagCategory\<close> and \<^verbatim>\<open>RedFlag\<close>) is not among the sources.
  The members are those of the spec's data model; the member names are the ones the
  analyzers use (\<^verbatim>\<open>SeverityLevel.CRITICAL\<close>, \<^verbatim>\<open>FlagCategory.MISSING_INFO\<close>, ...).
\<close>

datatype SeverityLevel = CRITICAL | HIGH | MEDIUM | LOW

datatype FlagCategory =
  JURISDICTION | FINANCIAL | LEGAL | OPERATIONAL | COMPLIANCE | VAGUE_LANGUAGE
  | MISSING_INFO | LIABILITY | INTELLECTUAL_PROPERTY | TAX | EMPLOYEE | CUSTOMER | OTHER

record RedFlag =
  category :: FlagCategory
  severity :: SeverityLevel
  title :: string
  description :: string
  location :: string
  score :: int
  source :: string
  recommendation :: "string option"

section \<open>Strings\<close>

text \<open>
  Document texts, titles and descriptions are taken to be ASCII: a \<^typ>\<open>string\<close> is a
  list of 8-bit characters, \<^verbatim>\<open>str.lower\<close> maps \<^verbatim>\<open>A\<close>..\<^verbatim>\<open>Z\<close> to \<^verbatim>\<open>a\<close>..\<^verbatim>\<open>z\<close> and leaves
  every other character alone, and the whitespace of \<^verbatim>\<open>str.split()\<close> is the ASCII
  whitespace of Python (tab, line feed, vertical tab, form feed, carriage return, the
  separators 0x1c..0x1f and the space).
\<close>

definition lower_char :: "char \<Rightarrow> char" where
  "lower_char c =
     (case map_of (zip ''ABCDEFGHIJKLMNOPQRSTUVWXYZ'' ''abcdefghijklmnopqrstuvwxyz'') c of
        Some d \<Rightarrow> d
      | None \<Rightarrow> c)"

definition lower :: "string \<Rightarrow> string" where
  "lower s = map lower_char s"

definition is_space :: "char \<Rightarrow> bool" where
  "is_space c \<longleftrightarrow>
     c \<in> set [CHR 0x09, CHR 0x0A, CHR 0x0B, CHR 0x0C, CHR 0x0D,
               CHR 0x1C, CHR 0x1D, CHR 0x1E, CHR 0x1F, CHR '' '']"

text \<open>\<^verbatim>\<open>s.split()\<close>: the maximal runs of non-whitespace characters, in order.\<close>

fun split_from :: "string \<Rightarrow> string \<Rightarrow> string list" where
  "split_from cur [] = (if cur = [] then [] else [cur])"
| "split_from cur (c # cs) =
     (if is_space c then (if cur = [] then split_from [] cs else cur # split_from [] cs)
      else split_from (cur @ [c]) cs)"

definition split :: "string \<Rightarrow> string list" where
  "split s = split_from [] s"

section \<open>The aggregator: deduplication\<close>

text \<open>\<^verbatim>\<open>_get_flag_key\<close>: \<^verbatim>\<open>f"{flag.title.lower()}|{flag.description[:100].lower()}"\<close>.\<close>

definition get_flag_key :: "RedFlag \<Rightarrow> string" where
  "get_flag_key flag = lower (title flag) @ ''|'' @ lower (take 100 (description flag))"

text \<open>
  \<^verbatim>\<open>_are_similar\<close>. The source compares the float \<^verbatim>\<open>overlap / union\<close> with the float
  \<^verbatim>\<open>0.7\<close>. Both are the binary64 nearest to the exact quotient, and rounding is
  monotone, so the comparison agrees with the exact \<open>overlap / union \<ge> 7 / 10\<close> whenever
  the union has fewer than \<open>10^15\<close> words; it is written here without division. The guard
  \<^verbatim>\<open>if union > 0 else 0\<close> is kept although the union of two non-empty sets is never empty.
\<close>

definition similarity_threshold_holds :: "nat \<Rightarrow> nat \<Rightarrow> bool" where
  "similarity_threshold_holds overlap union_size \<longleftrightarrow>
     (if union_size > 0 then 7 * union_size \<le> 10 * overlap else False)"

definition are_similar :: "string \<Rightarrow> string \<Rightarrow> bool" where
  "are_similar key1 key2 =
     (let words1 = set (split key1);
          words2 = set (split key2)
      in if words1 = {} \<or> words2 = {} then False
         else similarity_threshold_holds (card (words1 \<inter> words2)) (card (words1 \<union> words2)))"

text \<open>
  \<^verbatim>\<open>by_category[flag.category].append(flag)\<close> on a \<^verbatim>\<open>defaultdict(list)\<close>: the dictionary
  keeps its keys in insertion order, so it is an association list where a new category
  goes to the end and a known one gets the flag appended to its list.
\<close>

fun by_category_append ::
  "(FlagCategory \<times> RedFlag list) list \<Rightarrow> RedFlag \<Rightarrow> (FlagCategory \<times> RedFlag list) list" where
  "by_category_append [] flag = [(category flag, [flag])]"
| "by_category_append ((c, flags) # rest) flag =
     (if c = category flag then (c, flags @ [flag]) # rest
      else (c, flags) # by_category_append rest flag)"

definition group_by_category :: "RedFlag list \<Rightarrow> (FlagCategory \<times> RedFlag list) list" where
  "group_by_category flags = foldl by_category_append [] flags"

text \<open>
  The inner loop over one category's flags; \<open>seen_similar\<close> is the set of accepted keys.
  The loop over \<open>seen_similar\<close> with its \<^verbatim>\<open>break\<close> computes whether some seen key is similar.
\<close>

fun dedup_category :: "string set \<Rightarrow> RedFlag list \<Rightarrow> RedFlag list" where
  "dedup_category seen_similar [] = []"
| "dedup_category seen_similar (flag # category_flags) =
     (let flag_key = get_flag_key flag;
          is_duplicate = (\<exists>seen_key \<in> seen_similar. are_similar flag_key seen_key)
      in if \<not> is_duplicate then flag # dedup_category (insert flag_key seen_similar) category_flags
         else dedup_category seen_similar category_flags)"

definition deduplicate_flags :: "RedFlag list \<Rightarrow> RedFlag list" where
  "deduplicate_flags flags =
     (if flags = [] then []
      else concat (map (\<lambda>(c, category_flags). dedup_category {} category_flags)
                       (group_by_category flags)))"

section \<open>Python numbers\<close>

datatype py_error = ZeroDivisionError | OverflowError

text \<open>
  A Python \<^verbatim>\<open>float\<close> is a binary64; a finite one is modelled by the rational number it
  denotes (the sign of a zero is not modelled). \<open>round_half_even\<close> is the integer nearest to
  a rational, ties going to the even one. \<open>float_exponent q\<close>, for \<open>q > 0\<close>, is the \<open>e\<close> with
  \<open>2^e \<le> q < 2^(e+1)\<close>. \<open>nearest_double q\<close> is the binary64 nearest to \<open>q\<close>, ties to even:
  53 significant bits at the exponent of \<open>q\<close>, and at the exponent \<open>-1022\<close> for the
  subnormal numbers below \<open>2^-1022\<close>; the range is not bounded above here, the callers
  check it.
\<close>

definition round_half_even :: "rat \<Rightarrow> int" where
  "round_half_even r =
     (let f = \<lfloor>r\<rfloor>; frac = r - of_int f
      in if frac < 1 / 2 then f
         else if frac > 1 / 2 then f + 1
         else if even f then f else f + 1)"

definition float_exponent :: "rat \<Rightarrow> int" where
  "float_exponent q =
     (if 1 \<le> q then bitlen \<lfloor>q\<rfloor> - 1
      else - int (ceillog2 (nat \<lceil>1 / q\<rceil>)))"

definition nearest_double :: "rat \<Rightarrow> rat" where
  "nearest_double q =
     (if q = 0 then 0
      else let e = max (float_exponent \<bar>q\<bar>) (- 1022);
               m = round_half_even (\<bar>q\<bar> * 2 powi (52 - e))
           in sgn q * of_int m * 2 powi (e - 52))"

text \<open>
  \<^verbatim>\<open>a / b\<close> on two \<^verbatim>\<open>int\<close>s: the correctly rounded quotient; \<^verbatim>\<open>ZeroDivisionError\<close> for a zero
  divisor and \<^verbatim>\<open>OverflowError\<close> when the rounded quotient is beyond the largest binary64.
\<close>

definition py_truediv :: "int \<Rightarrow> int \<Rightarrow> py_error + rat" where
  "py_truediv a b =
     (if b = 0 then Inl ZeroDivisionError
      else let x = nearest_double (of_int a / of_int b)
           in if 2 ^ 1024 \<le> \<bar>x\<bar> then Inl OverflowError else Inr x)"

text \<open>
  \<^verbatim>\<open>round(x, 2)\<close> on a finite \<^verbatim>\<open>float\<close>: the exact value of \<open>x\<close> is rounded to two decimals,
  ties to even, and the decimal is converted back to the nearest binary64.
\<close>

definition py_round2 :: "rat \<Rightarrow> rat" where
  "py_round2 x = nearest_double (of_int (round_half_even (100 * x)) / 100)"

section \<open>The aggregator: sorting, counting, scoring\<close>

text \<open>The dictionary \<^verbatim>\<open>severity_order\<close> of \<^verbatim>\<open>aggregate\<close>.\<close>

fun severity_order :: "SeverityLevel \<Rightarrow> nat" where
  "severity_order CRITICAL = 0"
| "severity_order HIGH = 1"
| "severity_order MEDIUM = 2"
| "severity_order LOW = 3"

text \<open>The sort key \<^verbatim>\<open>lambda f: (severity_order[f.severity], -f.score)\<close>; tuples compare
  lexicographically.\<close>

definition flag_sort_key :: "RedFlag \<Rightarrow> nat \<times> int" where
  "flag_sort_key f = (severity_order (severity f), - score f)"

text \<open>\<^verbatim>\<open>list.sort(key=...)\<close> is a stable ascending sort by the key, which is what
  \<^const>\<open>sort_key\<close> computes.\<close>

definition sort_flags :: "RedFlag list \<Rightarrow> RedFlag list" where
  "sort_flags deduplicated = sort_key flag_sort_key deduplicated"

text \<open>\<^verbatim>\<open>_count_by_severity\<close>: the dictionary of the four counters, as a function.\<close>

definition count_by_severity :: "RedFlag list \<Rightarrow> SeverityLevel \<Rightarrow> nat" where
  "count_by_severity flags =
     foldl (\<lambda>counts flag. counts(severity flag := counts (severity flag) + 1)) (\<lambda>s. 0) flags"

text \<open>The dictionary \<^verbatim>\<open>severity_weights\<close> of \<^verbatim>\<open>_calculate_risk_score\<close>.\<close>

fun severity_weights :: "SeverityLevel \<Rightarrow> int" where
  "severity_weights CRITICAL = 10"
| "severity_weights HIGH = 5"
| "severity_weights MEDIUM = 2"
| "severity_weights LOW = 1"

text \<open>The loop of \<^verbatim>\<open>_calculate_risk_score\<close>: the pair \<open>(weighted_sum, total_weight)\<close>.\<close>

definition risk_sums :: "RedFlag list \<Rightarrow> int \<times> int" where
  "risk_sums flags =
     foldl (\<lambda>(weighted_sum, total_weight) flag.
              let weight = severity_weights (severity flag)
              in (weighted_sum + score flag * weight, total_weight + weight))
           (0, 0) flags"

definition calculate_risk_score :: "RedFlag list \<Rightarrow> py_error + rat" where
  "calculate_risk_score flags =
     (if flags = [] then Inr 0
      else let (weighted_sum, total_weight) = risk_sums flags
           in if total_weight = 0 then Inr 0
              else case py_truediv weighted_sum total_weight of
                     Inl err \<Rightarrow> Inl err
                   | Inr mean \<Rightarrow> Inr (py_round2 mean))"

text \<open>
  The report. \<^verbatim>\<open>AnalysisResult\<close> is declared in \<^verbatim>\<open>models/schemas.py\<close>, which is not among
  the sources; the fields are those \<^verbatim>\<open>aggregate\<close> passes. \<open>analyzed_at\<close> is the value of
  \<^verbatim>\<open>datetime.now()\<close>, a parameter here, and \<open>processing_time\<close> is a finite float.
\<close>

record report_metadata =
  rule_flags_count :: nat
  llm_flags_count :: nat
  deduplication_removed :: int

record 'time AnalysisResult =
  document_name :: string
  analyzed_at :: 'time
  total_flags :: nat
  critical_count :: nat
  high_count :: nat
  medium_count :: nat
  low_count :: nat
  overall_risk_score :: rat
  flags :: "RedFlag list"
  processing_time_seconds :: rat
  metadata :: report_metadata

definition aggregate ::
  "'time \<Rightarrow> string \<Rightarrow> RedFlag list \<Rightarrow> RedFlag list \<Rightarrow> rat \<Rightarrow> py_error + 'time AnalysisResult" where
  "aggregate now doc_name rule_flags llm_flags processing_time =
     (let all_flags = rule_flags @ llm_flags;
          deduplicated = sort_flags (deduplicate_flags all_flags);
          severity_counts = count_by_severity deduplicated
      in case calculate_risk_score deduplicated of
           Inl err \<Rightarrow> Inl err
         | Inr risk_score \<Rightarrow>
             Inr \<lparr>document_name = doc_name,
                  analyzed_at = now,
                  total_flags = length deduplicated,
                  critical_count = severity_counts CRITICAL,
                  high_count = severity_counts HIGH,
                  medium_count = severity_counts MEDIUM,
                  low_count = severity_counts LOW,
                  overall_risk_score = risk_score,
                  flags = deduplicated,
                  processing_time_seconds = py_round2 processing_time,
                  metadata = \<lparr>rule_flags_count = length rule_flags,
                              llm_flags_count = length llm_flags,
                              deduplication_removed =
                                int (length all_flags) - int (length deduplicated)\<rparr>\<rparr>)"

section \<open>More string operations\<close>

text \<open>\<^verbatim>\<open>s.strip()\<close>: leading and trailing whitespace removed.\<close>

definition strip :: "string \<Rightarrow> string" where
  "strip s = rev (dropWhile is_space (rev (dropWhile is_space s)))"

text \<open>\<^verbatim>\<open>sub in s\<close> on strings: \<open>sub\<close> occurs in \<open>s\<close> as a contiguous substring.\<close>

fun is_substring :: "string \<Rightarrow> string \<Rightarrow> bool" where
  "is_substring sub [] = (sub = [])"
| "is_substring sub (c # cs) = (prefix sub (c # cs) \<or> is_substring sub cs)"

text \<open>\<^verbatim>\<open>str(n)\<close> and \<^verbatim>\<open>f"{n}"\<close> for a non-negative integer: its decimal digits.\<close>

fun string_of_nat :: "nat \<Rightarrow> string" where
  "string_of_nat n =
     (if n < 10 then [''0123456789'' ! n]
      else string_of_nat (n div 10) @ [''0123456789'' ! (n mod 10)])"

section \<open>The rule engine\<close>

text \<open>
  The regular expressions of the rule engine, each matched with \<^verbatim>\<open>re.IGNORECASE\<close>:
  \<^item> \<open>WholeWord w\<close> is \<^verbatim>\<open>rf'\b{re.escape(w)}\b'\<close>;
  \<^item> \<open>AuditDate\<close> is \<^verbatim>\<open>r'audit(?:ed)?[^.]{0,50}(?:19|20)(\d{2})'\<close>;
  \<^item> \<open>Payment p\<close> is the key \<open>p\<close> of the dictionary \<^verbatim>\<open>red_flags\<close>, matched with \<^verbatim>\<open>re.DOTALL\<close> too;
  \<^item> \<open>Survival\<close> is \<^verbatim>\<open>r'(?:surviv|representations).*?(\d+)\s*(?:months?|days?)'\<close>;
  \<^item> \<open>Concentration\<close> is \<^verbatim>\<open>r'top\s+\d+\s+customers?.*?(\d+)%'\<close>.

  A match object carries \<^verbatim>\<open>match.start()\<close>, \<^verbatim>\<open>match.end()\<close> and, for the patterns with a
  group, \<^verbatim>\<open>int(match.group(1))\<close>: the group is a non-empty run of digits, so the conversion
  does not raise.
\<close>

datatype re_pattern = WholeWord string | AuditDate | Payment string | Survival | Concentration

record re_match =
  m_start :: nat
  m_end :: nat
  m_group1 :: nat

text \<open>
  What the rule engine imports and is not among the sources: the three lists of
  \<^verbatim>\<open>utils/config.py\<close>, and \<^verbatim>\<open>list(re.finditer(pattern, text, flags))\<close> of the standard
  library, the matches of a pattern in a text from left to right.
\<close>

record rule_env =
  OFFSHORE_JURISDICTIONS :: "string list"
  WEASEL_WORDS :: "string list"
  HIGH_RISK_PHRASES :: "string list"
  finditer :: "re_pattern \<Rightarrow> string \<Rightarrow> re_match list"

text \<open>\<^verbatim>\<open>_get_context\<close> with the default \<^verbatim>\<open>chars=150\<close>.\<close>

definition get_context :: "string \<Rightarrow> nat \<Rightarrow> nat \<Rightarrow> string" where
  "get_context text start end_pos =
     (let chars = 150;
          context_start = start - chars;
          context_end = min (length text) (end_pos + chars);
          context = strip (take (context_end - context_start) (drop context_start text));
          context = (if context_start > 0 then ''...'' @ context else context);
          context = (if context_end < length text then context @ ''...'' else context)
      in context)"

definition match_context :: "string \<Rightarrow> re_match \<Rightarrow> string" where
  "match_context text m = get_context text (m_start m) (m_end m)"

definition quoted :: "string \<Rightarrow> string" where
  "quoted s = [CHR 0x27] @ s @ [CHR 0x27]"

subsection \<open>The eight checks\<close>

text \<open>Each check takes the accumulated \<^verbatim>\<open>self.flags\<close> and returns it with its flags appended.\<close>

definition offshore_flag :: "string \<Rightarrow> string \<Rightarrow> RedFlag" where
  "offshore_flag jurisdiction context =
     (let sev = (if list_ex (\<lambda>keyword. is_substring keyword (lower context))
                        [''governing law'', ''arbitration'', ''dispute resolution'']
                 then CRITICAL else HIGH)
      in \<lparr>category = JURISDICTION,
          severity = sev,
          title = ''Offshore Jurisdiction: '' @ jurisdiction,
          description = ''Document references '' @ jurisdiction @
            '', which may indicate jurisdiction shopping or regulatory arbitrage.'',
          location = context,
          score = (if sev = CRITICAL then 9 else 7),
          source = ''rule_engine'',
          recommendation = Some (''Require arbitration in neutral jurisdiction (Delaware, New York, or London). '' @
            ''Investigate why offshore jurisdiction was chosen.'')\<rparr>)"

definition check_offshore_jurisdictions :: "rule_env \<Rightarrow> string \<Rightarrow> RedFlag list \<Rightarrow> RedFlag list" where
  "check_offshore_jurisdictions env text self_flags =
     foldl (\<lambda>acc jurisdiction.
              foldl (\<lambda>acc m. acc @ [offshore_flag jurisdiction (match_context text m)])
                    acc (finditer env (WholeWord jurisdiction) text))
           self_flags (OFFSHORE_JURISDICTIONS env)"

definition weasel_flag :: "string \<Rightarrow> nat \<Rightarrow> string \<Rightarrow> RedFlag" where
  "weasel_flag word n context =
     \<lparr>category = VAGUE_LANGUAGE,
      severity = MEDIUM,
      title = ''Excessive Vague Language: '' @ quoted word @ '' ('' @ string_of_nat n @ ''x)'',
      description = ''Term '' @ quoted word @ '' appears '' @ string_of_nat n @
        '' times. Vague language creates ambiguity and potential for disputes.'',
      location = context,
      score = 5,
      source = ''rule_engine'',
      recommendation = Some (''Request specific definitions and thresholds. Replace '' @
        quoted word @ '' with measurable criteria.'')\<rparr>"

definition check_weasel_words :: "rule_env \<Rightarrow> string \<Rightarrow> RedFlag list \<Rightarrow> RedFlag list" where
  "check_weasel_words env text self_flags =
     foldl (\<lambda>acc word.
              case finditer env (WholeWord word) text of
                [] \<Rightarrow> acc
              | first_match # later_matches \<Rightarrow>
                  if length (first_match # later_matches) > 3
                  then acc @ [weasel_flag word (length (first_match # later_matches))
                                (match_context text first_match)]
                  else acc)
           self_flags (WEASEL_WORDS env)"

definition high_risk_flag :: "string \<Rightarrow> string \<Rightarrow> RedFlag" where
  "high_risk_flag phrase context =
     \<lparr>category = MISSING_INFO,
      severity = HIGH,
      title = ''Deferred Disclosure: '' @ quoted phrase,
      description = ''Critical information is deferred or incomplete. This is a major red flag - '' @
        ''you'' @ [CHR 0x27] @ ''re signing before having full information.'',
      location = context,
      score = 8,
      source = ''rule_engine'',
      recommendation = Some (''STOP. Do not sign until all referenced information is provided and reviewed. '' @
        ''No post-closing surprises.'')\<rparr>"

definition check_high_risk_phrases :: "rule_env \<Rightarrow> string \<Rightarrow> RedFlag list \<Rightarrow> RedFlag list" where
  "check_high_risk_phrases env text self_flags =
     foldl (\<lambda>acc phrase.
              foldl (\<lambda>acc m. acc @ [high_risk_flag phrase (match_context text m)])
                    acc (finditer env (WholeWord phrase) text))
           self_flags (HIGH_RISK_PHRASES env)"

text \<open>
  The missing-schedule check builds its regular expression from a literal indicator:
  \<^verbatim>\<open>re.search(rf'.{{0,100}}{indicator}.{{0,100}}', text, re.IGNORECASE)\<close>. It is modelled
  in full. The dot matches every character but the line feed. \<open>dot_run s\<close> is how many
  characters a greedy \<^verbatim>\<open>.{0,100}\<close> takes at the start of \<open>s\<close>; \<open>matches_ci lit s\<close> says that the
  literal matches at the start of \<open>s\<close>, ignoring case; \<open>backtrack\<close> gives characters of the
  first \<^verbatim>\<open>.{0,100}\<close> back until the literal matches behind them; \<open>match_here\<close> is the match
  that starts at the start of \<open>s\<close>, and \<open>search_context\<close> is \<^verbatim>\<open>group(0)\<close> of the leftmost match.
\<close>

definition dot_run :: "string \<Rightarrow> nat" where
  "dot_run s = min 100 (length (takeWhile (\<lambda>c. c \<noteq> CHR 0x0A) s))"

definition matches_ci :: "string \<Rightarrow> string \<Rightarrow> bool" where
  "matches_ci lit s \<longleftrightarrow> length lit \<le> length s \<and> lower (take (length lit) s) = lower lit"

fun backtrack :: "nat \<Rightarrow> string \<Rightarrow> string \<Rightarrow> nat option" where
  "backtrack 0 lit s = (if matches_ci lit s then Some 0 else None)"
| "backtrack (Suc c) lit s =
     (if matches_ci lit (drop (Suc c) s) then Some (Suc c) else backtrack c lit s)"

definition match_here :: "string \<Rightarrow> string \<Rightarrow> string option" where
  "match_here lit s =
     (case backtrack (dot_run s) lit s of
        None \<Rightarrow> None
      | Some c \<Rightarrow> Some (take (c + length lit + dot_run (drop (c + length lit) s)) s))"

fun search_context :: "string \<Rightarrow> string \<Rightarrow> string option" where
  "search_context lit [] = match_here lit []"
| "search_context lit (c # cs) =
     (case match_here lit (c # cs) of
        Some found \<Rightarrow> Some found
      | None \<Rightarrow> search_context lit cs)"

definition missing_indicators :: "string list" where
  "missing_indicators =
     [''being finalized'', ''to be provided'', ''being compiled'',
      ''will be attached'', ''to be determined'']"

definition missing_schedule_flag :: "string \<Rightarrow> string \<Rightarrow> RedFlag" where
  "missing_schedule_flag indicator context =
     \<lparr>category = MISSING_INFO,
      severity = CRITICAL,
      title = ''Missing or Incomplete Schedules'',
      description = ''Schedules are incomplete: '' @ quoted indicator @
        ''. Never sign with missing schedules.'',
      location = context,
      score = 10,
      source = ''rule_engine'',
      recommendation = Some (''Require all schedules to be completed and attached before signing. '' @
        ''Missing schedules = unknown liabilities.'')\<rparr>"

text \<open>
  The loop over the indicators: the \<^verbatim>\<open>break\<close> after the \<^verbatim>\<open>append\<close> ends it; an indicator that
  is not in \<^verbatim>\<open>text.lower()\<close>, or whose search finds nothing, leaves it running.
\<close>

fun missing_schedules_loop :: "string list \<Rightarrow> string \<Rightarrow> RedFlag list \<Rightarrow> RedFlag list" where
  "missing_schedules_loop [] text self_flags = self_flags"
| "missing_schedules_loop (indicator # rest) text self_flags =
     (if is_substring indicator (lower text) then
        (case search_context indicator text of
           Some context_match \<Rightarrow> self_flags @ [missing_schedule_flag indicator context_match]
         | None \<Rightarrow> missing_schedules_loop rest text self_flags)
      else missing_schedules_loop rest text self_flags)"

text \<open>
  \<^verbatim>\<open>_check_missing_schedules\<close>. The set \<^verbatim>\<open>referenced_schedules\<close> it computes first is never
  used and is left out.
\<close>

definition check_missing_schedules :: "string \<Rightarrow> RedFlag list \<Rightarrow> RedFlag list" where
  "check_missing_schedules text self_flags =
     missing_schedules_loop missing_indicators text self_flags"

definition audit_flag :: "nat \<Rightarrow> string \<Rightarrow> RedFlag" where
  "audit_flag full_year context =
     \<lparr>category = FINANCIAL,
      severity = HIGH,
      title = ''Outdated Financial Audit ('' @ string_of_nat full_year @ '')'',
      description = ''Most recent audit mentioned is from '' @ string_of_nat full_year @
        '', which is too old to be reliable.'',
      location = context,
      score = 7,
      source = ''rule_engine'',
      recommendation = Some (''Require current audited financials (within 12 months). '' @
        ''Outdated audits hide recent problems.'')\<rparr>"

definition check_date_anomalies :: "rule_env \<Rightarrow> string \<Rightarrow> RedFlag list \<Rightarrow> RedFlag list" where
  "check_date_anomalies env text self_flags =
     foldl (\<lambda>acc m.
              let year = m_group1 m;
                  full_year = (if year > 50 then 1900 + year else 2000 + year)
              in if full_year < 2023
                 then acc @ [audit_flag full_year (match_context text m)]
                 else acc)
           self_flags (finditer env AuditDate text)"

text \<open>The dictionary \<^verbatim>\<open>red_flags\<close> of the payment check, in its insertion order.\<close>

definition payment_red_flags :: "(string \<times> string \<times> SeverityLevel \<times> int \<times> string) list" where
  "payment_red_flags =
     [(''earnout.*(?:undefined|to be determined|mutually agreed)'',
       ''Undefined Earnout Targets'', CRITICAL, 10,
       ''Never accept undefined earnout metrics. Specify exact EBITDA/revenue targets and calculation methods.''),
      (''deferred.*(?:performance metrics|to be determined)'',
       ''Undefined Deferred Payment Terms'', HIGH, 8,
       ''All deferred payment triggers must be clearly defined at signing.'')]"

definition payment_flag :: "string \<times> SeverityLevel \<times> int \<times> string \<Rightarrow> string \<Rightarrow> RedFlag" where
  "payment_flag flag_info context =
     (case flag_info of (info_title, info_severity, info_score, info_recommendation) \<Rightarrow>
        \<lparr>category = FINANCIAL,
         severity = info_severity,
         title = info_title,
         description = ''Payment terms are incomplete or subject to future agreement. '' @
           ''This creates massive dispute risk.'',
         location = context,
         score = info_score,
         source = ''rule_engine'',
         recommendation = Some info_recommendation\<rparr>)"

definition check_payment_red_flags :: "rule_env \<Rightarrow> string \<Rightarrow> RedFlag list \<Rightarrow> RedFlag list" where
  "check_payment_red_flags env text self_flags =
     foldl (\<lambda>acc (pattern, flag_info).
              foldl (\<lambda>acc m. acc @ [payment_flag flag_info (match_context text m)])
                    acc (finditer env (Payment pattern) text))
           self_flags payment_red_flags"

definition survival_flag :: "nat \<Rightarrow> string \<Rightarrow> RedFlag" where
  "survival_flag period context =
     \<lparr>category = LIABILITY,
      severity = HIGH,
      title = ''Short Survival Period ('' @ string_of_nat period @ '' months)'',
      description = ''Representations survive only '' @ string_of_nat period @
        '' months. Industry standard is 18-24 months minimum.'',
      location = context,
      score = 7,
      source = ''rule_engine'',
      recommendation = Some (''Negotiate longer survival period (minimum 18 months). '' @
        string_of_nat period @ '' months is insufficient for most issues to surface.'')\<rparr>"

definition check_liability_limitations :: "rule_env \<Rightarrow> string \<Rightarrow> RedFlag list \<Rightarrow> RedFlag list" where
  "check_liability_limitations env text self_flags =
     foldl (\<lambda>acc m.
              let period = m_group1 m
              in if period < 12
                 then acc @ [survival_flag period (match_context text m)]
                 else acc)
           self_flags (finditer env Survival text)"

definition concentration_flag :: "nat \<Rightarrow> string \<Rightarrow> RedFlag" where
  "concentration_flag percentage context =
     \<lparr>category = CUSTOMER,
      severity = (if percentage > 70 then CRITICAL else HIGH),
      title = ''High Customer Concentration ('' @ string_of_nat percentage @ ''%)'',
      description = ''Top customers represent '' @ string_of_nat percentage @
        ''% of revenue. Loss of any major customer could be catastrophic.'',
      location = context,
      score = (if percentage > 70 then 9 else 7),
      source = ''rule_engine'',
      recommendation = Some (''Require customer retention agreements, escrow protection, '' @
        ''or earnout tied to customer retention.'')\<rparr>"

definition check_customer_concentration :: "rule_env \<Rightarrow> string \<Rightarrow> RedFlag list \<Rightarrow> RedFlag list" where
  "check_customer_concentration env text self_flags =
     foldl (\<lambda>acc m.
              let percentage = m_group1 m
              in if percentage > 50
                 then acc @ [concentration_flag percentage (match_context text m)]
                 else acc)
           self_flags (finditer env Concentration text)"

subsection \<open>\<^verbatim>\<open>RuleEngine.analyze\<close>\<close>

text \<open>
  The engine object has one attribute, \<^verbatim>\<open>self.flags\<close>. \<open>analyze\<close> takes its value before
  the call and returns the list the call returns together with the value of \<^verbatim>\<open>self.flags\<close>
  after the call. The first statement rebinds \<^verbatim>\<open>self.flags\<close> to a new empty list.
\<close>

definition analyze :: "rule_env \<Rightarrow> string \<Rightarrow> RedFlag list \<Rightarrow> RedFlag list \<times> RedFlag list" where
  "analyze env full_text self_flags =
     (let self_flags = [];
          self_flags = check_offshore_jurisdictions env full_text self_flags;
          self_flags = check_weasel_words env full_text self_flags;
          self_flags = check_high_risk_phrases env full_text self_flags;
          self_flags = check_missing_schedules full_text self_flags;
          self_flags = check_date_anomalies env full_text self_flags;
          self_flags = check_payment_red_flags env full_text self_flags;
          self_flags = check_liability_limitations env full_text self_flags;
          self_flags = check_customer_concentration env full_text self_flags
      in (self_flags, self_flags))"

section \<open>The semantic-analysis adapter: parsing a response\<close>

text \<open>
  What \<^verbatim>\<open>json.loads\<close> returns. A JSON object is a dictionary, here the list of its items
  (each key once); a number is an \<^verbatim>\<open>int\<close> or a \<^verbatim>\<open>float\<close>, and \<open>JNonFinite\<close> stands for the floats
  \<^verbatim>\<open>NaN\<close>, \<^verbatim>\<open>Infinity\<close> and \<^verbatim>\<open>-Infinity\<close> that \<^verbatim>\<open>json.loads\<close> accepts.
\<close>

datatype json =
  JNull | JBool bool | JInt int | JFloat rat | JNonFinite | JStr string
  | JArr "json list" | JObj "(string \<times> json) list"

text \<open>\<^verbatim>\<open>item.get(key, default)\<close>.\<close>

definition dict_get :: "(string \<times> json) list \<Rightarrow> string \<Rightarrow> json \<Rightarrow> json" where
  "dict_get d k dflt = (case map_of d k of Some v \<Rightarrow> v | None \<Rightarrow> dflt)"

text \<open>
  Modelled from the spec: the enumerations \<^verbatim>\<open>FlagCategory\<close> and \<^verbatim>\<open>SeverityLevel\<close> are declared
  in \<^verbatim>\<open>models/schemas.py\<close>, which is not among the sources. Their values are the ones of
  the spec's data model, which the prompt of the analyzer lists too. Calling an
  enumeration with a value, \<^verbatim>\<open>FlagCategory(v)\<close>, returns the member with that value and
  raises \<^verbatim>\<open>ValueError\<close> when there is none; \<open>None\<close> is the raise.
\<close>

definition FlagCategory_values :: "(string \<times> FlagCategory) list" where
  "FlagCategory_values =
     [(''jurisdiction'', JURISDICTION), (''financial'', FINANCIAL), (''legal'', LEGAL),
      (''operational'', OPERATIONAL), (''compliance'', COMPLIANCE),
      (''vague_language'', VAGUE_LANGUAGE), (''missing_info'', MISSING_INFO),
      (''liability'', LIABILITY), (''intellectual_property'', INTELLECTUAL_PROPERTY),
      (''tax'', TAX), (''employee'', EMPLOYEE), (''customer'', CUSTOMER), (''other'', OTHER)]"

definition FlagCategory_of :: "json \<Rightarrow> FlagCategory option" where
  "FlagCategory_of v = (case v of JStr s \<Rightarrow> map_of FlagCategory_values s | _ \<Rightarrow> None)"

definition SeverityLevel_values :: "(string \<times> SeverityLevel) list" where
  "SeverityLevel_values =
     [(''CRITICAL'', CRITICAL), (''HIGH'', HIGH), (''MEDIUM'', MEDIUM), (''LOW'', LOW)]"

definition SeverityLevel_of :: "json \<Rightarrow> SeverityLevel option" where
  "SeverityLevel_of v = (case v of JStr s \<Rightarrow> map_of SeverityLevel_values s | _ \<Rightarrow> None)"

text \<open>
  \<^verbatim>\<open>int(v)\<close> on a value of \<^verbatim>\<open>json.loads\<close>; \<open>None\<close> is a raise (\<^verbatim>\<open>TypeError\<close>, \<^verbatim>\<open>ValueError\<close> or
  \<^verbatim>\<open>OverflowError\<close>). A \<^verbatim>\<open>bool\<close> is an \<^verbatim>\<open>int\<close>, a \<^verbatim>\<open>float\<close> is truncated towards zero, and a
  string is read as a decimal literal: whitespace around it, an optional sign, digits
  with single underscores between them.
\<close>

definition is_digit :: "char \<Rightarrow> bool" where
  "is_digit c \<longleftrightarrow> c \<in> set ''0123456789''"

definition digit_value :: "char \<Rightarrow> int" where
  "digit_value c = (case map_of (zip ''0123456789'' [0, 1, 2, 3, 4, 5, 6, 7, 8, 9]) c of
                      Some d \<Rightarrow> d | None \<Rightarrow> 0)"

fun digits_ok :: "string \<Rightarrow> bool" where
  "digits_ok [] = False"
| "digits_ok [c] = is_digit c"
| "digits_ok (c # d # cs) =
     (if is_digit c then (if d = CHR ''_'' then digits_ok cs else digits_ok (d # cs)) else False)"

definition py_int_str :: "string \<Rightarrow> int option" where
  "py_int_str s =
     (let t = strip s;
          (sign, body) = (case t of
                            c # r \<Rightarrow> if c = CHR ''-'' then (- 1, r)
                                     else if c = CHR ''+'' then (1, r) else (1, t)
                          | [] \<Rightarrow> (1, t))
      in if digits_ok body
         then Some (sign * foldl (\<lambda>n c. 10 * n + digit_value c) 0
                             (filter (\<lambda>c. c \<noteq> CHR ''_'') body))
         else None)"

definition py_int :: "json \<Rightarrow> int option" where
  "py_int v =
     (case v of
        JInt n \<Rightarrow> Some n
      | JBool b \<Rightarrow> Some (if b then 1 else 0)
      | JFloat x \<Rightarrow> Some (if 0 \<le> x then \<lfloor>x\<rfloor> else \<lceil>x\<rceil>)
      | JStr s \<Rightarrow> py_int_str s
      | _ \<Rightarrow> None)"

text \<open>
  Modelled from the spec: the constructor \<^verbatim>\<open>RedFlag(...)\<close> is declared in
  \<^verbatim>\<open>models/schemas.py\<close>, which is not among the sources. By the spec's data model the
  title, the description and the location are strings and the recommendation is
  optional text; the constructor raises on a value of another type. \<open>None\<close> is the raise.
\<close>

definition json_str :: "json \<Rightarrow> string option" where
  "json_str v = (case v of JStr s \<Rightarrow> Some s | _ \<Rightarrow> None)"

definition json_optional_str :: "json \<Rightarrow> string option option" where
  "json_optional_str v = (case v of JStr s \<Rightarrow> Some (Some s) | JNull \<Rightarrow> Some None | _ \<Rightarrow> None)"

text \<open>
  The body of the loop of \<^verbatim>\<open>_parse_llm_response\<close> for one item: the flag it appends, or
  \<open>None\<close> when an exception is caught and the loop goes on with the next item. An item
  that is no dictionary has no \<^verbatim>\<open>get\<close>; a location that is no string cannot be a location
  (a slice of a list is a list, other values have no slice).
\<close>

definition parse_item :: "string \<Rightarrow> json \<Rightarrow> RedFlag option" where
  "parse_item src item =
     (case item of
        JObj d \<Rightarrow>
          (case FlagCategory_of (dict_get d ''category'' (JStr ''other'')) of
             None \<Rightarrow> None
           | Some cat \<Rightarrow>
          (case SeverityLevel_of (dict_get d ''severity'' (JStr ''MEDIUM'')) of
             None \<Rightarrow> None
           | Some sev \<Rightarrow>
          (case json_str (dict_get d ''title'' (JStr ''Unspecified Issue'')) of
             None \<Rightarrow> None
           | Some item_title \<Rightarrow>
          (case json_str (dict_get d ''description'' (JStr [])) of
             None \<Rightarrow> None
           | Some item_description \<Rightarrow>
          (case json_str (dict_get d ''quote'' (dict_get d ''location'' (JStr []))) of
             None \<Rightarrow> None
           | Some quote \<Rightarrow>
          (case py_int (dict_get d ''score'' (JInt 5)) of
             None \<Rightarrow> None
           | Some item_score \<Rightarrow>
          (case json_optional_str (dict_get d ''recommendation'' JNull) of
             None \<Rightarrow> None
           | Some item_recommendation \<Rightarrow>
               Some \<lparr>category = cat,
                     severity = sev,
                     title = item_title,
                     description = item_description,
                     location = take 500 quote,
                     score = item_score,
                     source = src,
                     recommendation = item_recommendation\<rparr>)))))))
      | _ \<Rightarrow> None)"

text \<open>The loop over the items: the flags of the items that parse, in order.\<close>

fun parse_items :: "string \<Rightarrow> json list \<Rightarrow> RedFlag list" where
  "parse_items src [] = []"
| "parse_items src (item # items) =
     (case parse_item src item of
        Some flag \<Rightarrow> flag # parse_items src items
      | None \<Rightarrow> parse_items src items)"

text \<open>
  \<^verbatim>\<open>_parse_llm_response\<close> from the value of \<^verbatim>\<open>json.loads\<close> on: a dictionary with a key
  \<^verbatim>\<open>"flags"\<close> is replaced by that entry, and anything but a list gives no flags.
\<close>

definition parse_llm_data :: "json \<Rightarrow> string \<Rightarrow> RedFlag list" where
  "parse_llm_data data src =
     (let data = (case data of
                    JObj d \<Rightarrow> (case map_of d ''flags'' of Some v \<Rightarrow> v | None \<Rightarrow> data)
                  | _ \<Rightarrow> data)
      in case data of
           JArr items \<Rightarrow> parse_items src items
         | _ \<Rightarrow> [])"

text \<open>
  The cleaning of the response text before \<^verbatim>\<open>json.loads\<close>, and the whole function;
  \<open>loads\<close> is \<^verbatim>\<open>json.loads\<close> of the standard library, \<open>None\<close> for a \<^verbatim>\<open>JSONDecodeError\<close>.
\<close>

definition clean_response :: "string \<Rightarrow> string" where
  "clean_response response_text =
     (let t = strip response_text;
          t = (if prefix ''```json'' t then drop 7 t else t);
          t = (if prefix ''```'' t then drop 3 t else t);
          t = (if suffix ''```'' t then take (length t - 3) t else t)
      in strip t)"

definition parse_llm_response :: "(string \<Rightarrow> json option) \<Rightarrow> string \<Rightarrow> string \<Rightarrow> RedFlag list" where
  "parse_llm_response loads response_text src =
     (case loads (clean_response response_text) of
        None \<Rightarrow> []
      | Some data \<Rightarrow> parse_llm_data data src)"

section \<open>Notions used to state the properties\<close>

text \<open>The distinct elements of a list, in the order of their first occurrence.\<close>

fun first_occurrences :: "'a list \<Rightarrow> 'a list" where
  "first_occurrences [] = []"
| "first_occurrences (x # xs) = x # first_occurrences (filter (\<lambda>y. y \<noteq> x) xs)"

text \<open>The category group of \<open>c\<close>: the flags of category \<open>c\<close>, in arrival order.\<close>

definition in_category :: "FlagCategory \<Rightarrow> RedFlag list \<Rightarrow> RedFlag list" where
  "in_category c fs = filter (\<lambda>f. category f = c) fs"

section \<open>Example flags\<close>

definition flag_of :: "FlagCategory \<Rightarrow> SeverityLevel \<Rightarrow> string \<Rightarrow> string \<Rightarrow> int \<Rightarrow> RedFlag" where
  "flag_of c sev t d s =
     \<lparr>category = c, severity = sev, title = t, description = d, location = [],
      score = s, source = ''rule_engine'', recommendation = None\<rparr>"

text \<open>
  Four flags for the examples: \<open>ex_dup\<close> has the words of \<open>ex_rule\<close> in another case (and
  another severity and score), \<open>ex_legal\<close> has the text of \<open>ex_rule\<close> in another category,
  and \<open>ex_audit\<close> shares the category of \<open>ex_rule\<close> and none of its words.
\<close>

definition ex_rule :: RedFlag where
  "ex_rule = flag_of FINANCIAL HIGH ''Undefined Earnout Targets'' ''Payment terms are incomplete'' 8"

definition ex_dup :: RedFlag where
  "ex_dup = flag_of FINANCIAL CRITICAL ''UNDEFINED earnout targets'' ''payment terms are INCOMPLETE'' 10"

definition ex_legal :: RedFlag where
  "ex_legal = flag_of LEGAL LOW ''Undefined Earnout Targets'' ''Payment terms are incomplete'' 2"

definition ex_audit :: RedFlag where
  "ex_audit = flag_of FINANCIAL MEDIUM ''Outdated Financial Audit'' ''The audit is from 2019'' 5"

text \<open>
  A text for the examples; it has the indicator \<open>to be provided\<close> before the indicator
  \<open>being finalized\<close>. The environment of the examples knows one jurisdiction, one weasel
  word and one phrase, and its \<open>finditer\<close> has the one whole-word match of that phrase in
  the text, at the characters 11 to 25.
\<close>

definition ex_text :: string where
  "ex_text = ''Schedule A to be provided. Schedule B is being finalized.''"

definition ex_env :: rule_env where
  "ex_env =
     \<lparr>OFFSHORE_JURISDICTIONS = [''Cayman Islands''],
      WEASEL_WORDS = [''reasonable''],
      HIGH_RISK_PHRASES = [''to be provided''],
      finditer = (\<lambda>p t. if p = WholeWord ''to be provided'' \<and> t = ex_text
                        then [\<lparr>m_start = 11, m_end = 25, m_group1 = 0\<rparr>] else [])\<rparr>"

text \<open>The items of the examples, by their category and severity values, and the flag of a
  well-formed one.\<close>

definition ex_dict :: "string \<Rightarrow> string \<Rightarrow> (string \<times> json) list" where
  "ex_dict cat sev =
     [(''category'', JStr cat), (''severity'', JStr sev),
      (''title'', JStr ''Hidden liabilities''),
      (''description'', JStr ''The seller does not list its debts.''),
      (''quote'', JStr ''liabilities as disclosed''),
      (''score'', JInt 8),
      (''recommendation'', JStr ''Ask for a full list of debts.'')]"

definition ex_item :: "string \<Rightarrow> string \<Rightarrow> json" where
  "ex_item cat sev = JObj (ex_dict cat sev)"

definition ex_item_flag :: "FlagCategory \<Rightarrow> SeverityLevel \<Rightarrow> RedFlag" where
  "ex_item_flag cat sev =
     \<lparr>category = cat, severity = sev, title = ''Hidden liabilities'',
      description = ''The seller does not list its debts.'',
      location = ''liabilities as disclosed'', score = 8, source = ''claude'',
      recommendation = Some ''Ask for a full list of debts.''\<rparr>"

section \<open>Grouping by category\<close>

lemma set_first_occurrences [simp]: "set (first_occurrences xs) = set xs"
  by (induction xs rule: first_occurrences.induct) auto

lemma distinct_first_occurrences [simp]: "distinct (first_occurrences xs)"
  by (induction xs rule: first_occurrences.induct) auto

lemma first_occurrences_snoc:
  "first_occurrences (xs @ [x]) =
     (if x \<in> set xs then first_occurrences xs else first_occurrences xs @ [x])"
  by (induction xs rule: first_occurrences.induct) auto

lemma by_category_append_known:
  "category f \<in> set cs \<Longrightarrow> distinct cs \<Longrightarrow>
   by_category_append (map (\<lambda>c. (c, in_category c fs)) cs) f =
   map (\<lambda>c. (c, in_category c (fs @ [f]))) cs"
  by (induction cs) (auto simp: in_category_def)

lemma by_category_append_new:
  "category f \<notin> set cs \<Longrightarrow>
   by_category_append (map (\<lambda>c. (c, in_category c fs)) cs) f =
   map (\<lambda>c. (c, in_category c (fs @ [f]))) cs @ [(category f, [f])]"
  by (induction cs) (auto simp: in_category_def)

lemma in_category_absent: "c \<notin> category ` set fs \<Longrightarrow> in_category c fs = []"
  by (auto simp: in_category_def filter_empty_conv)

lemma group_by_category_eq:
  "group_by_category fs =
   map (\<lambda>c. (c, in_category c fs)) (first_occurrences (map category fs))"
proof (induction fs rule: rev_induct)
  case Nil
  show ?case by (simp add: group_by_category_def)
next
  case (snoc f fs)
  have step: "group_by_category (fs @ [f]) = by_category_append (group_by_category fs) f"
    by (simp add: group_by_category_def)
  show ?case
  proof (cases "category f \<in> category ` set fs")
    case True
    then show ?thesis
      using snoc by (simp add: step first_occurrences_snoc by_category_append_known)
  next
    case False
    then have "in_category (category f) fs = []" by (rule in_category_absent)
    then have "in_category (category f) (fs @ [f]) = [f]" by (simp add: in_category_def)
    with False show ?thesis
      using snoc by (simp add: step first_occurrences_snoc by_category_append_new)
  qed
qed

lemma deduplicate_flags_eq:
  "deduplicate_flags fs =
   concat (map (\<lambda>c. dedup_category {} (in_category c fs)) (first_occurrences (map category fs)))"
  by (cases "fs = []") (simp_all add: deduplicate_flags_def group_by_category_eq comp_def)

section \<open>Facts about the deduplication loops\<close>

lemma dedup_category_Cons [simp]:
  "dedup_category S (f # fs) =
     (if \<exists>k \<in> S. are_similar (get_flag_key f) k then dedup_category S fs
      else f # dedup_category (insert (get_flag_key f) S) fs)"
  by (simp add: Let_def)

declare dedup_category.simps(2) [simp del]

lemma dedup_category_subseq: "subseq (dedup_category S fs) fs"
  by (induction fs arbitrary: S) (auto simp: Let_def)

lemma set_dedup_category: "set (dedup_category S fs) \<subseteq> set fs"
  by (induction fs arbitrary: S) (auto simp: Let_def)

lemma dedup_category_idem: "dedup_category S (dedup_category S fs) = dedup_category S fs"
  by (induction fs arbitrary: S) (auto simp: Let_def)

lemma dedup_category_first [simp]: "dedup_category {} (f # fs) = f # dedup_category {get_flag_key f} fs"
  by simp

lemma dedup_category_Nil_iff [simp]: "dedup_category {} fs = [] \<longleftrightarrow> fs = []"
  by (cases fs) simp_all

lemma in_category_dedup_category:
  "in_category c (dedup_category S (in_category c' fs)) = (if c = c' then dedup_category S (in_category c' fs) else [])"
  using set_dedup_category[of S "in_category c' fs"]
  by (auto simp: in_category_def filter_id_conv filter_empty_conv)

lemma in_category_concat:
  "distinct cs \<Longrightarrow> in_category c (concat (map (\<lambda>c'. dedup_category S (in_category c' fs)) cs))
     = (if c \<in> set cs then dedup_category S (in_category c fs) else [])"
proof (induction cs)
  case Nil
  then show ?case by (simp add: in_category_def)
next
  case (Cons a cs)
  have app: "\<And>xs ys. in_category c (xs @ ys) = in_category c xs @ in_category c ys"
    by (simp add: in_category_def)
  from Cons show ?case
    by (auto simp: app in_category_dedup_category)
qed

lemma in_category_deduplicate_flags:
  "in_category c (deduplicate_flags fs) = dedup_category {} (in_category c fs)"
proof (cases "c \<in> category ` set fs")
  case True
  then show ?thesis by (simp add: deduplicate_flags_eq in_category_concat)
next
  case False
  then have "in_category c fs = []" by (rule in_category_absent)
  with False show ?thesis by (simp add: deduplicate_flags_eq in_category_concat)
qed

lemma map_category_in_category: "map category (in_category c fs) = replicate (length (in_category c fs)) c"
  by (induction fs) (auto simp: in_category_def)

lemma first_occurrences_same:
  "\<forall>x \<in> set xs. x = a \<Longrightarrow> \<forall>y \<in> set ys. y \<noteq> a \<Longrightarrow>
   first_occurrences (a # xs @ ys) = a # first_occurrences ys"
proof -
  assume a: "\<forall>x \<in> set xs. x = a" and b: "\<forall>y \<in> set ys. y \<noteq> a"
  from a have "filter (\<lambda>y. y \<noteq> a) xs = []" by (simp add: filter_empty_conv)
  moreover from b have "filter (\<lambda>y. y \<noteq> a) ys = ys" by (simp add: filter_id_conv)
  ultimately show ?thesis by simp
qed

lemma first_occurrences_blocks:
  assumes "distinct cs"
    and "\<And>c. c \<in> set cs \<Longrightarrow> B c \<noteq> []"
    and "\<And>c f. c \<in> set cs \<Longrightarrow> f \<in> set (B c) \<Longrightarrow> category f = c"
  shows "first_occurrences (map category (concat (map B cs))) = cs"
  using assms
proof (induction cs)
  case Nil
  then show ?case by simp
next
  case (Cons a cs)
  obtain f fs where B: "B a = f # fs"
    using Cons.prems(2)[of a] by (cases "B a") auto
  have cf: "category f = a" using Cons.prems(3)[of a f] B by simp
  have cfs: "\<forall>x \<in> set (map category fs). x = a"
    using Cons.prems(3)[of a] B by simp
  have rest: "\<forall>y \<in> set (map category (concat (map B cs))). y \<noteq> a"
  proof
    fix y assume "y \<in> set (map category (concat (map B cs)))"
    then obtain c g where c: "c \<in> set cs" and g: "g \<in> set (B c)" and y: "y = category g"
      by auto
    then have "y = c" using Cons.prems(3)[of c g] by simp
    with c Cons.prems(1) show "y \<noteq> a" by auto
  qed
  have IH: "first_occurrences (map category (concat (map B cs))) = cs"
    using Cons.IH Cons.prems by simp
  have "map category (concat (map B (a # cs))) = a # map category fs @ map category (concat (map B cs))"
    using B cf by simp
  then show ?case
    using first_occurrences_same[OF cfs rest] IH by simp
qed

lemma categories_deduplicate_flags:
  "first_occurrences (map category (deduplicate_flags fs)) = first_occurrences (map category fs)"
proof -
  let ?cs = "first_occurrences (map category fs)"
  let ?B = "\<lambda>c. dedup_category {} (in_category c fs)"
  have "\<And>c. c \<in> set ?cs \<Longrightarrow> ?B c \<noteq> [] \<and> (\<forall>f \<in> set (?B c). category f = c)"
  proof -
    fix c assume "c \<in> set ?cs"
    then have "in_category c fs \<noteq> []" by (auto simp: in_category_def filter_empty_conv)
    moreover have "\<forall>f \<in> set (?B c). category f = c"
      using set_dedup_category[of "{}" "in_category c fs"] by (auto simp: in_category_def)
    ultimately show "?B c \<noteq> [] \<and> (\<forall>f \<in> set (?B c). category f = c)" by simp
  qed
  then have "first_occurrences (map category (concat (map ?B ?cs))) = ?cs"
    by (intro first_occurrences_blocks distinct_first_occurrences) blast+
  then show ?thesis by (simp only: deduplicate_flags_eq)
qed

lemma dedup_category_snoc:
  "dedup_category S (xs @ [f]) =
   dedup_category S xs @
   (if \<exists>k \<in> S \<union> get_flag_key ` set (dedup_category S xs). are_similar (get_flag_key f) k
    then [] else [f])"
proof (induction xs arbitrary: S)
  case Nil
  show ?case by simp
next
  case (Cons x xs)
  show ?case
  proof (cases "\<exists>k \<in> S. are_similar (get_flag_key x) k")
    case True
    then show ?thesis using Cons[of S] by simp
  next
    case False
    then show ?thesis using Cons[of "insert (get_flag_key x) S"] by simp
  qed
qed

lemma in_category_snoc:
  "in_category c (fs @ [f]) = in_category c fs @ (if category f = c then [f] else [])"
  by (simp add: in_category_def)

lemma dedup_category_map:
  assumes "\<And>f. get_flag_key (g f) = get_flag_key f"
  shows "dedup_category S (map g xs) = map g (dedup_category S xs)"
  by (induction xs arbitrary: S) (simp_all add: assms Let_def)

lemma deduplicate_flags_map:
  assumes cat: "\<And>f. category (g f) = category f"
    and key: "\<And>f. get_flag_key (g f) = get_flag_key f"
  shows "deduplicate_flags (map g fs) = map g (deduplicate_flags fs)"
proof -
  have a: "map category (map g fs) = map category fs"
    by (simp add: cat)
  have b: "\<And>c. in_category c (map g fs) = map g (in_category c fs)"
    by (simp add: in_category_def filter_map comp_def cat)
  show ?thesis
    unfolding deduplicate_flags_eq a b
    by (simp add: dedup_category_map[OF key] map_concat comp_def)
qed






lemma deduplicate_flags_single_category:
  "deduplicate_flags (in_category c fs) = dedup_category {} (in_category c fs)"
proof (cases "in_category c fs")
  case Nil
  then show ?thesis by (simp add: deduplicate_flags_def)
next
  case (Cons x xs)
  have all: "\<forall>f \<in> set (in_category c fs). category f = c"
    by (simp add: in_category_def)
  then have "\<forall>y \<in> set (map category xs). y = c" and cx: "category x = c"
    using Cons by simp_all
  then have "filter (\<lambda>y. y \<noteq> c) (map category xs) = []"
    by (simp add: filter_empty_conv)
  then have "first_occurrences (map category (in_category c fs)) = [c]"
    using Cons cx by simp
  moreover have "in_category c (in_category c fs) = in_category c fs"
    by (simp add: in_category_def)
  ultimately show ?thesis
    by (simp add: deduplicate_flags_eq)
qed



section \<open>Properties of the deduplication step\<close>

lemma deduplicate_flags_pair:
  "deduplicate_flags [a, b] =
     (if category a = category b \<and> are_similar (get_flag_key b) (get_flag_key a) then [a]
      else [a, b])"
  by (simp add: deduplicate_flags_eq in_category_def)

lemma ex_dedup_rule_legal: "deduplicate_flags [ex_rule, ex_legal] = [ex_rule, ex_legal]"
  by code_simp

lemma ex_similar_dup_rule: "are_similar (get_flag_key ex_dup) (get_flag_key ex_rule)"
  by code_simp


lemma ex_categories:
  "category ex_rule = FINANCIAL" "category ex_dup = FINANCIAL"
  "category ex_legal = LEGAL" "category ex_audit = FINANCIAL"
  by (simp_all add: ex_rule_def ex_dup_def ex_legal_def ex_audit_def flag_of_def)


text \<open>
  C1. Within each category group the flags are taken in arrival order, and the next flag
  of the combined sequence survives exactly when its key is similar to the key of no
  flag accepted before it in its group: a flag that introduces a key is kept, a later
  flag similar to an accepted key is dropped. In particular the first flag of every
  group survives. Which flags survive depends on arrival order only: replacing the
  severities and scores by any others replaces them in the output and changes nothing else.
\<close>

theorem C1_first_arrival_wins:
  "in_category c (deduplicate_flags (fs @ [f])) =
     in_category c (deduplicate_flags fs) @
     (if category f = c \<and>
         \<not> (\<exists>g \<in> set (in_category c (deduplicate_flags fs)).
              are_similar (get_flag_key f) (get_flag_key g))
      then [f] else [])
   \<and> (in_category c fs = first # rest \<longrightarrow>
        (\<exists>kept. in_category c (deduplicate_flags fs) = first # kept))
   \<and> deduplicate_flags (map (\<lambda>f. f\<lparr>severity := sev f, score := sc f\<rparr>) fs) =
       map (\<lambda>f. f\<lparr>severity := sev f, score := sc f\<rparr>) (deduplicate_flags fs)"
proof (intro conjI impI)
  show "in_category c (deduplicate_flags (fs @ [f])) =
     in_category c (deduplicate_flags fs) @
     (if category f = c \<and>
         \<not> (\<exists>g \<in> set (in_category c (deduplicate_flags fs)).
              are_similar (get_flag_key f) (get_flag_key g))
      then [f] else [])"
    by (simp add: in_category_deduplicate_flags in_category_snoc dedup_category_snoc)
next
  assume "in_category c fs = first # rest"
  then show "\<exists>kept. in_category c (deduplicate_flags fs) = first # kept"
    by (simp add: in_category_deduplicate_flags)
next
  show "deduplicate_flags (map (\<lambda>f. f\<lparr>severity := sev f, score := sc f\<rparr>) fs) =
       map (\<lambda>f. f\<lparr>severity := sev f, score := sc f\<rparr>) (deduplicate_flags fs)"
    by (rule deduplicate_flags_map) (simp_all add: get_flag_key_def)
qed

theorem C1_first_arrival_wins_witness:
  "in_category FINANCIAL (deduplicate_flags ([ex_rule, ex_legal] @ [ex_dup])) = [ex_rule]
   \<and> (\<exists>kept. in_category FINANCIAL (deduplicate_flags [ex_rule, ex_legal]) = ex_rule # kept)
   \<and> deduplicate_flags (map (\<lambda>f. f\<lparr>severity := LOW, score := 1\<rparr>) [ex_rule, ex_legal]) =
       map (\<lambda>f. f\<lparr>severity := LOW, score := 1\<rparr>) [ex_rule, ex_legal]"
  using C1_first_arrival_wins
    [where c = FINANCIAL and fs = "[ex_rule, ex_legal]" and f = ex_dup and first = ex_rule
       and rest = "[]" and sev = "\<lambda>f. LOW" and sc = "\<lambda>f. 1"]
  by (simp add: ex_dedup_rule_legal ex_similar_dup_rule ex_categories in_category_def)

text \<open>
  C5. Flags of different categories are never deduplicated against each other: two flags
  of different categories both survive, whatever their titles and descriptions (even
  identical ones), and in any input the survivors of a category are those of the
  deduplication of that category's flags alone.
\<close>

theorem C5_categories_independent:
  "(category a \<noteq> category b \<longrightarrow> deduplicate_flags [a, b] = [a, b])
   \<and> in_category c (deduplicate_flags fs) = deduplicate_flags (in_category c fs)"
  by (simp add: deduplicate_flags_pair in_category_deduplicate_flags
      deduplicate_flags_single_category)

theorem C5_categories_independent_witness:
  "deduplicate_flags [ex_rule, ex_legal] = [ex_rule, ex_legal]
   \<and> title ex_rule = title ex_legal \<and> description ex_rule = description ex_legal
   \<and> in_category FINANCIAL (deduplicate_flags [ex_rule, ex_legal, ex_dup]) =
       deduplicate_flags (in_category FINANCIAL [ex_rule, ex_legal, ex_dup])"
  using C5_categories_independent
    [where a = ex_rule and b = ex_legal and c = FINANCIAL and fs = "[ex_rule, ex_legal, ex_dup]"]
  by (simp add: ex_categories) (simp add: ex_rule_def ex_legal_def flag_of_def)



text \<open>
  C6. The deduplication step is idempotent: applied to its own output it returns that
  output unchanged, the same flags in the same order, for every input sequence.
\<close>

theorem C6_dedup_idempotent:
  "deduplicate_flags (deduplicate_flags fs) = deduplicate_flags fs"
proof -
  have "deduplicate_flags (deduplicate_flags fs) =
        concat (map (\<lambda>c. dedup_category {} (in_category c (deduplicate_flags fs)))
          (first_occurrences (map category (deduplicate_flags fs))))"
    by (rule deduplicate_flags_eq)
  also have "\<dots> = concat (map (\<lambda>c. dedup_category {} (in_category c fs))
          (first_occurrences (map category fs)))"
    by (simp only: categories_deduplicate_flags in_category_deduplicate_flags dedup_category_idem)
  also have "\<dots> = deduplicate_flags fs"
    by (rule deduplicate_flags_eq[symmetric])
  finally show ?thesis .
qed

theorem C6_dedup_idempotent_witness:
  "deduplicate_flags (deduplicate_flags
     [flag_of LEGAL HIGH ''Earnout undefined'' ''No targets'' 8,
      flag_of TAX LOW ''Earnout undefined'' ''No targets'' 2,
      flag_of LEGAL CRITICAL ''EARNOUT undefined'' ''no TARGETS'' 10]) =
   [flag_of LEGAL HIGH ''Earnout undefined'' ''No targets'' 8,
    flag_of TAX LOW ''Earnout undefined'' ''No targets'' 2]"
proof -
  have h: "deduplicate_flags
     [flag_of LEGAL HIGH ''Earnout undefined'' ''No targets'' 8,
      flag_of TAX LOW ''Earnout undefined'' ''No targets'' 2,
      flag_of LEGAL CRITICAL ''EARNOUT undefined'' ''no TARGETS'' 10] =
   [flag_of LEGAL HIGH ''Earnout undefined'' ''No targets'' 8,
    flag_of TAX LOW ''Earnout undefined'' ''No targets'' 2]"
    by code_simp
  show ?thesis
    using C6_dedup_idempotent
      [of "[flag_of LEGAL HIGH ''Earnout undefined'' ''No targets'' 8,
            flag_of TAX LOW ''Earnout undefined'' ''No targets'' 2,
            flag_of LEGAL CRITICAL ''EARNOUT undefined'' ''no TARGETS'' 10]"]
    by (simp only: h)
qed

section \<open>Facts about rounding and the risk sums\<close>

lemma round_half_even_error: "\<bar>of_int (round_half_even r) - r\<bar> \<le> 1 / 2"
proof -
  have "of_int \<lfloor>r\<rfloor> \<le> r" "r < of_int \<lfloor>r\<rfloor> + 1" by linarith+
  then show ?thesis
    by (auto simp: round_half_even_def Let_def)
qed

lemma round_half_even_nonneg: "0 \<le> r \<Longrightarrow> 0 \<le> round_half_even r"
  by (auto simp: round_half_even_def Let_def)

lemma float_exponent_ge1:
  assumes "1 \<le> q"
  shows "2 powi (float_exponent q) \<le> q \<and> q < 2 powi (float_exponent q + 1)"
proof -
  have pos: "0 < \<lfloor>q\<rfloor>" using assms by simp
  from bitlen_bounds[OF pos] have lo: "2 ^ nat (bitlen \<lfloor>q\<rfloor> - 1) \<le> \<lfloor>q\<rfloor>"
    and hi: "\<lfloor>q\<rfloor> < 2 ^ nat (bitlen \<lfloor>q\<rfloor>)" by simp_all
  have b1: "1 \<le> bitlen \<lfloor>q\<rfloor>" using pos by (auto simp: bitlen_alt_def)
  have "(of_int (2 ^ nat (bitlen \<lfloor>q\<rfloor> - 1)) :: rat) \<le> of_int \<lfloor>q\<rfloor>"
    using lo by (simp only: of_int_le_iff)
  also have "\<dots> \<le> q" by simp
  finally have A: "(2::rat) ^ nat (bitlen \<lfloor>q\<rfloor> - 1) \<le> q" by simp
  have "\<lfloor>q\<rfloor> + 1 \<le> 2 ^ nat (bitlen \<lfloor>q\<rfloor>)" using hi by simp
  then have "(of_int (\<lfloor>q\<rfloor> + 1) :: rat) \<le> of_int (2 ^ nat (bitlen \<lfloor>q\<rfloor>))"
    by (simp only: of_int_le_iff)
  moreover have "q < of_int (\<lfloor>q\<rfloor> + 1)" by simp linarith
  ultimately have B: "q < (2::rat) ^ nat (bitlen \<lfloor>q\<rfloor>)" by simp
  show ?thesis
    using A B b1 assms by (simp add: float_exponent_def power_int_def)
qed

lemma float_exponent_lt1:
  assumes "0 < q" "q < 1"
  shows "2 powi (float_exponent q) \<le> q \<and> q < 2 powi (float_exponent q + 1)"
proof -
  define c where "c = \<lceil>1 / q\<rceil>"
  define N where "N = nat c"
  define k where "k = ceillog2 N"
  have r1: "1 < 1 / q" using assms by simp
  have "of_int 1 < 1 / q" using r1 by simp
  then have c2: "1 < c" unfolding c_def by (simp only: less_ceiling_iff)
  then have N2: "2 \<le> N" and cN: "c = int N" by (simp_all add: N_def)
  have up: "1 / q \<le> of_int c" unfolding c_def by (rule le_of_int_ceiling)
  have lo: "of_int c - 1 < 1 / q" unfolding c_def by linarith
  have "N \<le> 2 ^ k" unfolding k_def by (rule le_two_power_ceillog2)
  then have "(of_nat N :: rat) \<le> of_nat (2 ^ k)" by (simp only: of_nat_le_iff)
  then have n2k: "(of_nat N :: rat) \<le> 2 ^ k" by simp
  have "1 / q \<le> of_nat N" using up cN by simp
  then have "1 / q \<le> 2 ^ k" using n2k by linarith
  then have A: "1 / 2 ^ k \<le> q" using assms(1) by (simp add: field_simps)
  have lt: "2 ^ k < 2 * N" unfolding k_def using N2 by (intro two_power_ceillog2_gt) simp
  have k1: "1 \<le> k" using \<open>N \<le> 2 ^ k\<close> N2 by (cases k) auto
  have "2 ^ (k - 1) < N" using lt k1 by (cases k) auto
  then have "2 ^ (k - 1) \<le> N - 1" by simp
  then have "(of_nat (2 ^ (k - 1)) :: rat) \<le> of_nat (N - 1)" by (simp only: of_nat_le_iff)
  then have "(2::rat) ^ (k - 1) \<le> of_nat N - 1" using N2 by (simp add: of_nat_diff)
  then have "(2::rat) ^ (k - 1) < 1 / q" using lo cN by simp
  then have B: "q < 1 / 2 ^ (k - 1)" using assms(1) by (simp add: field_simps)
  have fe: "float_exponent q = - int k"
    using assms by (simp add: float_exponent_def k_def N_def c_def)
  have e1: "(2::rat) powi (- int k) = 1 / 2 ^ k"
    by (simp add: power_int_minus_divide)
  have e2: "- int k + 1 = - int (k - 1)" using k1 by simp
  have e3: "(2::rat) powi (- int (k - 1)) = 1 / 2 ^ (k - 1)"
    by (simp add: power_int_minus_divide)
  show ?thesis using A B unfolding fe e2 e1 e3 by simp
qed

lemma float_exponent_bounds:
  "0 < q \<Longrightarrow> 2 powi (float_exponent q) \<le> q \<and> q < 2 powi (float_exponent q + 1)"
  using float_exponent_ge1[of q] float_exponent_lt1[of q] by (cases "1 \<le> q") simp_all

lemma nearest_double_error:
  assumes "0 < q"
  shows "\<bar>nearest_double q - q\<bar> \<le> 2 powi (max (float_exponent q) (- 1022) - 53)"
proof -
  define e where "e = max (float_exponent q) (- 1022)"
  define m where "m = round_half_even (q * 2 powi (52 - e))"
  have nd: "nearest_double q = of_int m * 2 powi (e - 52)"
    using assms by (simp add: nearest_double_def Let_def e_def m_def)
  have p: "(0::rat) < 2 powi (e - 52)" by simp
  have "\<bar>of_int m - q * 2 powi (52 - e)\<bar> \<le> 1 / 2"
    unfolding m_def by (rule round_half_even_error)
  then have "\<bar>of_int m - q * 2 powi (52 - e)\<bar> * 2 powi (e - 52) \<le> 1 / 2 * 2 powi (e - 52)"
    using p by (simp only: mult_le_cancel_right_pos)
  moreover have "\<bar>of_int m - q * 2 powi (52 - e)\<bar> * 2 powi (e - 52) =
        \<bar>of_int m * 2 powi (e - 52) - q * (2 powi (52 - e) * 2 powi (e - 52))\<bar>"
  proof -
    have "\<bar>of_int m - q * 2 powi (52 - e)\<bar> * 2 powi (e - 52) =
          \<bar>(of_int m - q * 2 powi (52 - e)) * 2 powi (e - 52)\<bar>"
      by (rule abs_mult_pos) simp
    also have "(of_int m - q * 2 powi (52 - e)) * 2 powi (e - 52) =
          of_int m * 2 powi (e - 52) - q * (2 powi (52 - e) * 2 powi (e - 52))"
      by (simp only: left_diff_distrib mult.assoc)
    finally show ?thesis .
  qed
  moreover have "(2::rat) powi (52 - e) * 2 powi (e - 52) = 1"
    by (simp add: power_int_add[symmetric])
  moreover have "1 / 2 * (2::rat) powi (e - 52) = 2 powi (e - 53)"
    by (simp add: power_int_diff)
  ultimately show ?thesis
    unfolding nd e_def[symmetric] by simp
qed

lemma nearest_double_nonneg: "0 \<le> q \<Longrightarrow> 0 \<le> nearest_double q"
  by (auto simp: nearest_double_def Let_def intro!: mult_nonneg_nonneg round_half_even_nonneg)

lemma nearest_double_regimes:
  assumes "0 < q"
  shows "\<bar>nearest_double q - q\<bar> \<le> q / 2 ^ 53 \<or>
         (q < 1 / 400 \<and> \<bar>nearest_double q - q\<bar> < 1 / 400)"
proof (cases "- 1022 \<le> float_exponent q")
  case True
  then have "max (float_exponent q) (- 1022) = float_exponent q" by simp
  with nearest_double_error[OF assms]
  have "\<bar>nearest_double q - q\<bar> \<le> 2 powi (float_exponent q - 53)" by simp
  also have "\<dots> = 2 powi (float_exponent q) / 2 ^ 53"
    by (simp add: power_int_diff)
  also have "\<dots> \<le> q / 2 ^ 53"
    using float_exponent_bounds[OF assms] by (simp add: divide_right_mono)
  finally show ?thesis by simp
next
  case False
  then have m: "max (float_exponent q) (- 1022) = - 1022"
    and le: "float_exponent q + 1 \<le> - 9" by simp_all
  have small: "(2::rat) powi (- 9) < 1 / 400" by (simp add: power_int_minus_divide)
  have "q < 2 powi (float_exponent q + 1)"
    using float_exponent_bounds[OF assms] by simp
  also have "\<dots> \<le> 2 powi (- 9)"
    using le by (intro power_int_increasing) simp_all
  finally have q: "q < 1 / 400" using small by simp
  have "\<bar>nearest_double q - q\<bar> \<le> 2 powi (- 1022 - 53)"
    using nearest_double_error[OF assms] unfolding m .
  also have "\<dots> \<le> 2 powi (- 9)"
    by (intro power_int_increasing) simp_all
  finally have "\<bar>nearest_double q - q\<bar> < 1 / 400" using small by simp
  with q show ?thesis by simp
qed

lemma round2_of_quotient:
  fixes n d :: int
  assumes n: "0 \<le> n" "n < 2 ^ 45" and d: "0 < d"
  defines "q \<equiv> (of_int n / of_int d :: rat)"
  defines "k \<equiv> round_half_even (100 * nearest_double q)"
  shows "\<bar>of_int k / 100 - q\<bar> \<le> 1 / 200"
proof (cases "n = 0")
  case True
  then show ?thesis
    by (simp add: q_def k_def nearest_double_def round_half_even_def)
next
  case False
  define x where "x = nearest_double q"
  have dpos: "(0::rat) < of_int d" using d by simp
  have qpos: "0 < q" using False n d by (simp add: q_def)
  have x0: "0 \<le> x" unfolding x_def using qpos by (intro nearest_double_nonneg) simp
  have k0: "0 \<le> k" unfolding k_def x_def[symmetric] using x0
    by (intro round_half_even_nonneg) simp
  have kx: "\<bar>of_int k - 100 * x\<bar> \<le> 1 / 2"
    unfolding k_def x_def by (rule round_half_even_error)
  have regimes: "\<bar>x - q\<bar> \<le> q / 2 ^ 53 \<or> (q < 1 / 400 \<and> \<bar>x - q\<bar> < 1 / 400)"
    unfolding x_def by (rule nearest_double_regimes[OF qpos])
  have nbound: "(of_int n :: rat) * 200 < 2 ^ 53"
  proof -
    have "n * 200 < 2 ^ 53" using n by simp
    then have "(of_int (n * 200) :: rat) < of_int (2 ^ 53)" by (simp only: of_int_less_iff)
    then show ?thesis by simp
  qed
  have qd: "q * of_int d = of_int n" using dpos by (simp add: q_def)
  have kx1: "of_int k - 100 * x \<le> 1 / 2"
    using kx by (rule abs_le_D1)
  have kx2: "100 * x - of_int k \<le> 1 / 2"
    using abs_le_D2[OF kx] by simp
  have "\<bar>of_int k - 100 * q\<bar> \<le> 1 / 2"
  proof (rule ccontr)
    assume "\<not> \<bar>of_int k - 100 * q\<bar> \<le> 1 / 2"
    then have "1 / 2 < of_int k - 100 * q \<or> 1 / 2 < 100 * q - of_int k"
      by linarith
    then consider (above) "1 / 2 < of_int k - 100 * q" | (below) "1 / 2 < 100 * q - of_int k"
      by blast
    then show False
    proof cases
      case above
      then have "200 * q < of_int (2 * k - 1)" by simp
      then have "200 * q * of_int d < of_int (2 * k - 1) * of_int d"
        using dpos by (simp only: mult_less_cancel_right_pos)
      then have "(of_int (200 * n) :: rat) < of_int ((2 * k - 1) * d)"
        using qd by (simp add: mult.assoc)
      then have "200 * n < (2 * k - 1) * d" by (simp only: of_int_less_iff)
      then have "200 * n + 1 \<le> (2 * k - 1) * d" by simp
      then have "(of_int (200 * n + 1) :: rat) \<le> of_int ((2 * k - 1) * d)"
        by (simp only: of_int_le_iff)
      then have "200 * (q * of_int d) + 1 \<le> (2 * of_int k - 1) * of_int d"
        by (simp add: qd)
      then have gap: "1 \<le> (2 * of_int k - 1 - 200 * q) * of_int d"
        by (simp add: algebra_simps)
      have "2 * of_int k - 1 - 200 * q \<le> 200 * (x - q)" using kx1 by simp
      then have "(2 * of_int k - 1 - 200 * q) * of_int d \<le> 200 * (x - q) * of_int d"
        using dpos by (simp only: mult_le_cancel_right_pos)
      with gap have big: "1 \<le> 200 * (x - q) * of_int d" by linarith
      have k1: "1 \<le> k"
      proof -
        have "(0::rat) < of_int k" using above qpos by linarith
        then show ?thesis by simp
      qed
      then have "(1::rat) \<le> of_int k" by simp
      then have xbig: "1 / 200 \<le> x" using kx1 by linarith
      from regimes show False
      proof
        assume "\<bar>x - q\<bar> \<le> q / 2 ^ 53"
        then have "x - q \<le> q / 2 ^ 53" by linarith
        then have "200 * (x - q) * of_int d \<le> 200 * (q / 2 ^ 53) * of_int d"
          using dpos by (simp add: mult_le_cancel_right_pos)
        also have "\<dots> = of_int n * 200 / 2 ^ 53"
          using qd by (simp add: field_simps)
        also have "\<dots> < 1" using nbound by simp
        finally show False using big by simp
      next
        assume "q < 1 / 400 \<and> \<bar>x - q\<bar> < 1 / 400"
        then show False using xbig by linarith
      qed
    next
      case below
      then have "of_int (2 * k + 1) < 200 * q" by simp
      then have "of_int (2 * k + 1) * of_int d < 200 * q * of_int d"
        using dpos by (simp only: mult_less_cancel_right_pos)
      then have "(of_int ((2 * k + 1) * d) :: rat) < of_int (200 * n)"
        using qd by (simp add: mult.assoc)
      then have "(2 * k + 1) * d < 200 * n" by (simp only: of_int_less_iff)
      then have "(2 * k + 1) * d + 1 \<le> 200 * n" by simp
      then have "(of_int ((2 * k + 1) * d + 1) :: rat) \<le> of_int (200 * n)"
        by (simp only: of_int_le_iff)
      then have "(2 * of_int k + 1) * of_int d + 1 \<le> 200 * (q * of_int d)"
        by (simp add: qd)
      then have gap: "1 \<le> (200 * q - 2 * of_int k - 1) * of_int d"
        by (simp add: algebra_simps)
      have "200 * q - 2 * of_int k - 1 \<le> 200 * (q - x)" using kx2 by simp
      then have "(200 * q - 2 * of_int k - 1) * of_int d \<le> 200 * (q - x) * of_int d"
        using dpos by (simp only: mult_le_cancel_right_pos)
      with gap have big: "1 \<le> 200 * (q - x) * of_int d" by linarith
      have "(0::rat) \<le> of_int k" using k0 by simp
      then have qbig: "1 / 200 < q" using below by linarith
      from regimes show False
      proof
        assume "\<bar>x - q\<bar> \<le> q / 2 ^ 53"
        then have "q - x \<le> q / 2 ^ 53" by linarith
        then have "200 * (q - x) * of_int d \<le> 200 * (q / 2 ^ 53) * of_int d"
          using dpos by (simp add: mult_le_cancel_right_pos)
        also have "\<dots> = of_int n * 200 / 2 ^ 53"
          using qd by (simp add: field_simps)
        also have "\<dots> < 1" using nbound by simp
        finally show False using big by simp
      next
        assume "q < 1 / 400 \<and> \<bar>x - q\<bar> < 1 / 400"
        then show False using qbig by linarith
      qed
    qed
  qed
  then show ?thesis by linarith
qed


lemma nearest_double_small:
  fixes n d :: int
  assumes "0 \<le> n" "n < 2 ^ 45" "0 < d"
  shows "\<bar>nearest_double (of_int n / of_int d)\<bar> < 2 ^ 1024"
proof -
  define q :: rat where "q = of_int n / of_int d"
  have "(of_int n :: rat) < of_int (2 ^ 45)" using assms(2) by (simp only: of_int_less_iff)
  then have n45: "(of_int n :: rat) < 2 ^ 45" by simp
  have d1: "(1::rat) \<le> of_int d" using assms(3) by simp
  have q0: "0 \<le> q" using assms by (simp add: q_def)
  have "q \<le> of_int n"
    unfolding q_def using d1 assms(1) by (simp add: divide_le_eq mult_le_cancel_left1)
  then have q45: "q < 2 ^ 45" using n45 by linarith
  have x0: "0 \<le> nearest_double q" using q0 by (rule nearest_double_nonneg)
  have "nearest_double q < 2 ^ 46"
  proof (cases "q = 0")
    case True
    then show ?thesis by (simp add: nearest_double_def)
  next
    case False
    then have "0 < q" using q0 by simp
    from nearest_double_regimes[OF this] show ?thesis
    proof
      assume a: "\<bar>nearest_double q - q\<bar> \<le> q / 2 ^ 53"
      have "q / 2 ^ 53 \<le> q" using q0 by (simp add: divide_le_eq mult_le_cancel_left1)
      with a have "nearest_double q \<le> 2 * q" by linarith
      then show ?thesis using q45 by simp
    next
      assume "q < 1 / 400 \<and> \<bar>nearest_double q - q\<bar> < 1 / 400"
      then have "nearest_double q < 1" by linarith
      then show ?thesis by (simp add: less_le_trans)
    qed
  qed
  also have "(2::rat) ^ 46 \<le> 2 ^ 1024" by (rule power_increasing) simp_all
  finally show ?thesis using x0 by (simp add: q_def)
qed

lemma risk_sums_foldl:
  "foldl (\<lambda>(weighted_sum, total_weight) flag.
              let weight = severity_weights (severity flag)
              in (weighted_sum + score flag * weight, total_weight + weight)) (a, b) fs =
   (a + (\<Sum>f\<leftarrow>fs. score f * severity_weights (severity f)),
    b + (\<Sum>f\<leftarrow>fs. severity_weights (severity f)))"
  by (induction fs arbitrary: a b) (simp_all add: Let_def algebra_simps)

lemma risk_sums_eq:
  "risk_sums fs =
   ((\<Sum>f\<leftarrow>fs. score f * severity_weights (severity f)),
    (\<Sum>f\<leftarrow>fs. severity_weights (severity f)))"
  unfolding risk_sums_def by (simp add: risk_sums_foldl)

lemma severity_weights_pos: "1 \<le> severity_weights s"
  by (cases s) simp_all

lemma total_weight_pos: "fs \<noteq> [] \<Longrightarrow> 0 < (\<Sum>f\<leftarrow>fs. severity_weights (severity f))"
proof (induction fs)
  case Nil
  then show ?case by simp
next
  case (Cons f fs)
  have "0 \<le> (\<Sum>f\<leftarrow>fs. severity_weights (severity f))"
    by (rule sum_list_nonneg) (use severity_weights_pos in \<open>auto intro: order_trans[of 0 1]\<close>)
  then show ?case using severity_weights_pos[of "severity f"] by simp
qed

lemma weighted_sum_nonneg:
  "\<forall>f \<in> set fs. 0 \<le> score f \<Longrightarrow> 0 \<le> (\<Sum>f\<leftarrow>fs. score f * severity_weights (severity f))"
proof (rule sum_list_nonneg)
  fix x assume a: "\<forall>f \<in> set fs. 0 \<le> score f"
    and "x \<in> set (map (\<lambda>f. score f * severity_weights (severity f)) fs)"
  then obtain f where "f \<in> set fs" and x: "x = score f * severity_weights (severity f)" by auto
  with a have "0 \<le> score f" by simp
  moreover have "0 \<le> severity_weights (severity f)"
    using severity_weights_pos[of "severity f"] by simp
  ultimately show "0 \<le> x" unfolding x by (rule mult_nonneg_nonneg)
qed

lemma py_truediv_100_10: "py_truediv 100 10 = Inr 10"
  by code_simp

lemma py_round2_10: "py_round2 10 = 10"
  by code_simp

section \<open>Properties of sorting and scoring\<close>

lemma aggregate_flags:
  "aggregate now doc rule_flags llm_flags t = Inr report \<Longrightarrow>
   flags report = sort_flags (deduplicate_flags (rule_flags @ llm_flags))"
  by (auto simp: aggregate_def Let_def split: sum.splits)

lemma severity_order_inj: "severity_order a = severity_order b \<longleftrightarrow> a = b"
  by (cases a; cases b) simp_all

lemma sort_flags_sorted:
  "i < j \<Longrightarrow> j < length (sort_flags fs) \<Longrightarrow>
   flag_sort_key (sort_flags fs ! i) \<le> flag_sort_key (sort_flags fs ! j)"
proof -
  assume ij: "i < j" "j < length (sort_flags fs)"
  have "sorted (map flag_sort_key (sort_flags fs))"
    unfolding sort_flags_def by (rule sorted_sort_key)
  then have "map flag_sort_key (sort_flags fs) ! i \<le> map flag_sort_key (sort_flags fs) ! j"
    using ij by (simp add: sorted_iff_nth_mono_less)
  then show ?thesis using ij by simp
qed

lemma flag_sort_key_le:
  "flag_sort_key a \<le> flag_sort_key b \<longleftrightarrow>
   severity_order (severity a) < severity_order (severity b) \<or>
   (severity a = severity b \<and> score b \<le> score a)"
  by (auto simp: flag_sort_key_def less_eq_prod_def severity_order_inj)

lemma ex_aggregate:
  "case aggregate (0::nat) ''contract.pdf'' [ex_rule, ex_legal] [ex_dup, ex_audit] (3 / 2) of
     Inl err \<Rightarrow> False
   | Inr report \<Rightarrow> flags report = [ex_rule, ex_audit, ex_legal]"
  by code_simp

lemma ex_dedup_four:
  "deduplicate_flags ([ex_rule, ex_legal] @ [ex_dup, ex_audit]) = [ex_rule, ex_audit, ex_legal]"
  by code_simp

lemma calculate_risk_score_single:
  "severity f = CRITICAL \<Longrightarrow> score f = 10 \<Longrightarrow> calculate_risk_score [f] = Inr 10"
  by (simp add: calculate_risk_score_def risk_sums_eq py_truediv_100_10 py_round2_10)

lemma calculate_risk_score_rounded:
  assumes "fs \<noteq> []" "\<forall>f \<in> set fs. 0 \<le> score f"
    and "(\<Sum>f\<leftarrow>fs. score f * severity_weights (severity f)) < 2 ^ 45"
  shows "\<exists>k. calculate_risk_score fs = Inr (nearest_double (of_int k / 100)) \<and>
             \<bar>(of_int k / 100 :: rat) -
               of_int (\<Sum>f\<leftarrow>fs. score f * severity_weights (severity f)) /
               of_int (\<Sum>f\<leftarrow>fs. severity_weights (severity f))\<bar> \<le> 1 / 200"
proof -
  define n where "n = (\<Sum>f\<leftarrow>fs. score f * severity_weights (severity f))"
  define d where "d = (\<Sum>f\<leftarrow>fs. severity_weights (severity f))"
  have n0: "0 \<le> n" and n45: "n < 2 ^ 45" and d0: "0 < d"
    unfolding n_def d_def using assms by (simp_all add: weighted_sum_nonneg total_weight_pos)
  define k where "k = round_half_even (100 * nearest_double (of_int n / of_int d))"
  have "py_truediv n d = Inr (nearest_double (of_int n / of_int d))"
    using nearest_double_small[OF n0 n45 d0] d0 by (simp add: py_truediv_def Let_def)
  then have "calculate_risk_score fs = Inr (nearest_double (of_int k / 100))"
    using assms(1) d0 by (simp add: calculate_risk_score_def risk_sums_eq n_def[symmetric]
        d_def[symmetric] py_round2_def k_def)
  moreover have "\<bar>(of_int k / 100 :: rat) - of_int n / of_int d\<bar> \<le> 1 / 200"
    unfolding k_def using n0 n45 d0 by (rule round2_of_quotient)
  ultimately show ?thesis unfolding n_def d_def by blast
qed

lemma aggregate_risk_score:
  "aggregate now doc rule_flags llm_flags t = Inr report \<Longrightarrow>
   calculate_risk_score (flags report) = Inr (overall_risk_score report)"
  by (auto simp: aggregate_def Let_def split: sum.splits)

lemma aggregate_Inr:
  assumes "calculate_risk_score (sort_flags (deduplicate_flags (rule_flags @ llm_flags))) = Inr x"
  shows "\<exists>report. aggregate now doc rule_flags llm_flags t = Inr report \<and>
           overall_risk_score report = x \<and>
           flags report = sort_flags (deduplicate_flags (rule_flags @ llm_flags))"
  using assms by (simp add: aggregate_def Let_def)

lemma sum_list_sort_flags:
  fixes g :: "RedFlag \<Rightarrow> int"
  shows "(\<Sum>f\<leftarrow>sort_flags fs. g f) = (\<Sum>f\<leftarrow>fs. g f)"
proof -
  have "mset (map g (sort_flags fs)) = mset (map g fs)"
    by (simp add: sort_flags_def)
  then have "sum_mset (mset (map g (sort_flags fs))) = sum_mset (mset (map g fs))"
    by (rule arg_cong)
  then show ?thesis by (simp only: sum_mset_sum_list)
qed

lemma sort_flags_Nil_iff: "sort_flags fs = [] \<longleftrightarrow> fs = []"
  by (metis mset_sort mset_zero_iff sort_flags_def)

lemma set_sort_flags: "set (sort_flags fs) = set fs"
  by (simp add: sort_flags_def)

lemma ex_dedup_single: "deduplicate_flags ([ex_dup] @ []) = [ex_dup]"
  by code_simp

lemma ex_dedup_empty: "deduplicate_flags ([] @ []) = []"
  by (simp add: deduplicate_flags_def)

lemma ex_nearest_650: "nearest_double (13 / 2) = 13 / 2"
  by code_simp

lemma ex_survivor_values:
  "severity ex_rule = HIGH" "score ex_rule = 8" "severity ex_audit = MEDIUM" "score ex_audit = 5"
  "severity ex_legal = LOW" "score ex_legal = 2" "severity ex_dup = CRITICAL" "score ex_dup = 10"
  by (simp_all add: ex_rule_def ex_audit_def ex_legal_def ex_dup_def flag_of_def)

text \<open>
  C3. The overall risk score of the report is the risk score of the report's flags, which
  are the survivors of the deduplication. When nothing survives the report is returned
  and its score is exactly 0.0; when the one survivor is a CRITICAL flag of score 10 it is
  exactly 10.0. When the survivors have non-negative scores and their weighted sum is
  below \<open>2^45\<close>, the report is returned and its score is the float written \<open>k/100\<close> for an
  integer \<open>k\<close> such that \<open>k/100\<close> is within half a hundredth of the weighted mean of the
  survivors' scores (weights 10, 5, 2, 1 for CRITICAL, HIGH, MEDIUM, LOW): the weighted
  mean rounded to two decimals. The same holds of the scoring function on any list of
  flags. The bound keeps the rounding error of the float division from moving the
  quotient across a rounding boundary; it holds for every list of fewer than
  \<open>3 * 10^11\<close> flags with scores up to 10.
\<close>

theorem C3_risk_score:
  "(aggregate now doc rule_flags llm_flags t = Inr report \<longrightarrow>
      calculate_risk_score (flags report) = Inr (overall_risk_score report) \<and>
      mset (flags report) = mset (deduplicate_flags (rule_flags @ llm_flags)))
   \<and> (deduplicate_flags (rule_flags @ llm_flags) = [] \<longrightarrow>
        (\<exists>r. aggregate now doc rule_flags llm_flags t = Inr r \<and> overall_risk_score r = 0))
   \<and> (deduplicate_flags (rule_flags @ llm_flags) = [f] \<and> severity f = CRITICAL \<and> score f = 10 \<longrightarrow>
        (\<exists>r. aggregate now doc rule_flags llm_flags t = Inr r \<and> overall_risk_score r = 10))
   \<and> (deduplicate_flags (rule_flags @ llm_flags) \<noteq> [] \<and>
        (\<forall>f \<in> set (deduplicate_flags (rule_flags @ llm_flags)). 0 \<le> score f) \<and>
        (\<Sum>f\<leftarrow>deduplicate_flags (rule_flags @ llm_flags).
            score f * severity_weights (severity f)) < 2 ^ 45 \<longrightarrow>
        (\<exists>r k. aggregate now doc rule_flags llm_flags t = Inr r \<and>
             overall_risk_score r = nearest_double (of_int k / 100) \<and>
             \<bar>(of_int k / 100 :: rat) -
               of_int (\<Sum>f\<leftarrow>deduplicate_flags (rule_flags @ llm_flags).
                          score f * severity_weights (severity f)) /
               of_int (\<Sum>f\<leftarrow>deduplicate_flags (rule_flags @ llm_flags).
                          severity_weights (severity f))\<bar> \<le> 1 / 200))
   \<and> calculate_risk_score [] = Inr 0
   \<and> (severity f = CRITICAL \<and> score f = 10 \<longrightarrow> calculate_risk_score [f] = Inr 10)
   \<and> (fs \<noteq> [] \<and> (\<forall>f \<in> set fs. 0 \<le> score f) \<and>
        (\<Sum>f\<leftarrow>fs. score f * severity_weights (severity f)) < 2 ^ 45 \<longrightarrow>
        (\<exists>k. calculate_risk_score fs = Inr (nearest_double (of_int k / 100)) \<and>
             \<bar>(of_int k / 100 :: rat) -
               of_int (\<Sum>f\<leftarrow>fs. score f * severity_weights (severity f)) /
               of_int (\<Sum>f\<leftarrow>fs. severity_weights (severity f))\<bar> \<le> 1 / 200))"
proof -
  let ?S = "deduplicate_flags (rule_flags @ llm_flags)"
  have 1: "aggregate now doc rule_flags llm_flags t = Inr report \<longrightarrow>
      calculate_risk_score (flags report) = Inr (overall_risk_score report) \<and>
      mset (flags report) = mset ?S"
    using aggregate_risk_score[of now doc rule_flags llm_flags t report]
      aggregate_flags[of now doc rule_flags llm_flags t report]
    by (auto simp: sort_flags_def)
  have 2: "?S = [] \<longrightarrow>
        (\<exists>r. aggregate now doc rule_flags llm_flags t = Inr r \<and> overall_risk_score r = 0)"
  proof
    assume "?S = []"
    then have "calculate_risk_score (sort_flags ?S) = Inr 0"
      by (simp add: sort_flags_def calculate_risk_score_def)
    from aggregate_Inr[OF this, of now doc t]
    show "\<exists>r. aggregate now doc rule_flags llm_flags t = Inr r \<and> overall_risk_score r = 0"
      by blast
  qed
  have 3: "?S = [f] \<and> severity f = CRITICAL \<and> score f = 10 \<longrightarrow>
        (\<exists>r. aggregate now doc rule_flags llm_flags t = Inr r \<and> overall_risk_score r = 10)"
  proof
    assume a: "?S = [f] \<and> severity f = CRITICAL \<and> score f = 10"
    then have "calculate_risk_score (sort_flags ?S) = Inr 10"
      by (simp add: sort_flags_def calculate_risk_score_single)
    from aggregate_Inr[OF this, of now doc t]
    show "\<exists>r. aggregate now doc rule_flags llm_flags t = Inr r \<and> overall_risk_score r = 10"
      by blast
  qed
  have 4: "?S \<noteq> [] \<and> (\<forall>f \<in> set ?S. 0 \<le> score f) \<and>
        (\<Sum>f\<leftarrow>?S. score f * severity_weights (severity f)) < 2 ^ 45 \<longrightarrow>
        (\<exists>r k. aggregate now doc rule_flags llm_flags t = Inr r \<and>
             overall_risk_score r = nearest_double (of_int k / 100) \<and>
             \<bar>(of_int k / 100 :: rat) -
               of_int (\<Sum>f\<leftarrow>?S. score f * severity_weights (severity f)) /
               of_int (\<Sum>f\<leftarrow>?S. severity_weights (severity f))\<bar> \<le> 1 / 200)"
  proof
    assume a: "?S \<noteq> [] \<and> (\<forall>f \<in> set ?S. 0 \<le> score f) \<and>
        (\<Sum>f\<leftarrow>?S. score f * severity_weights (severity f)) < 2 ^ 45"
    then have "sort_flags ?S \<noteq> []" "\<forall>f \<in> set (sort_flags ?S). 0 \<le> score f"
      "(\<Sum>f\<leftarrow>sort_flags ?S. score f * severity_weights (severity f)) < 2 ^ 45"
      by (simp_all add: sort_flags_Nil_iff set_sort_flags sum_list_sort_flags)
    from calculate_risk_score_rounded[OF this]
    obtain k where k: "calculate_risk_score (sort_flags ?S) = Inr (nearest_double (of_int k / 100))"
      and b: "\<bar>(of_int k / 100 :: rat) -
               of_int (\<Sum>f\<leftarrow>?S. score f * severity_weights (severity f)) /
               of_int (\<Sum>f\<leftarrow>?S. severity_weights (severity f))\<bar> \<le> 1 / 200"
      by (auto simp: sum_list_sort_flags)
    from aggregate_Inr[OF k, of now doc t] b
    show "\<exists>r k. aggregate now doc rule_flags llm_flags t = Inr r \<and>
             overall_risk_score r = nearest_double (of_int k / 100) \<and>
             \<bar>(of_int k / 100 :: rat) -
               of_int (\<Sum>f\<leftarrow>?S. score f * severity_weights (severity f)) /
               of_int (\<Sum>f\<leftarrow>?S. severity_weights (severity f))\<bar> \<le> 1 / 200"
      by blast
  qed
  have 5: "calculate_risk_score [] = Inr 0"
    by (simp add: calculate_risk_score_def)
  have 6: "severity f = CRITICAL \<and> score f = 10 \<longrightarrow> calculate_risk_score [f] = Inr 10"
    by (simp add: calculate_risk_score_single)
  have 7: "fs \<noteq> [] \<and> (\<forall>f \<in> set fs. 0 \<le> score f) \<and>
        (\<Sum>f\<leftarrow>fs. score f * severity_weights (severity f)) < 2 ^ 45 \<longrightarrow>
        (\<exists>k. calculate_risk_score fs = Inr (nearest_double (of_int k / 100)) \<and>
             \<bar>(of_int k / 100 :: rat) -
               of_int (\<Sum>f\<leftarrow>fs. score f * severity_weights (severity f)) /
               of_int (\<Sum>f\<leftarrow>fs. severity_weights (severity f))\<bar> \<le> 1 / 200)"
    using calculate_risk_score_rounded[of fs] by blast
  from 1 2 3 4 5 6 7 show ?thesis by (intro conjI)
qed

theorem C3_risk_score_witness:
  "(\<exists>r. aggregate (0::nat) ''contract.pdf'' [] [] (3 / 2) = Inr r \<and> overall_risk_score r = 0)
   \<and> (\<exists>r. aggregate (0::nat) ''contract.pdf'' [ex_dup] [] (3 / 2) = Inr r \<and> overall_risk_score r = 10)
   \<and> (\<exists>r. aggregate (0::nat) ''contract.pdf'' [ex_rule, ex_legal] [ex_dup, ex_audit] (3 / 2) = Inr r \<and>
          overall_risk_score r = 13 / 2 \<and>
          calculate_risk_score (flags r) = Inr (overall_risk_score r))"
proof -
  note th = C3_risk_score[where now = "0::nat" and doc = "''contract.pdf''" and t = "3 / 2"]
  have 1: "\<exists>r. aggregate (0::nat) ''contract.pdf'' [] [] (3 / 2) = Inr r \<and> overall_risk_score r = 0"
    using th[where rule_flags = "[]" and llm_flags = "[]", THEN conjunct2, THEN conjunct1]
      ex_dedup_empty by blast
  have 2: "\<exists>r. aggregate (0::nat) ''contract.pdf'' [ex_dup] [] (3 / 2) = Inr r \<and> overall_risk_score r = 10"
    using th[where rule_flags = "[ex_dup]" and llm_flags = "[]" and f = ex_dup,
        THEN conjunct2, THEN conjunct2, THEN conjunct1]
      ex_dedup_single ex_survivor_values by blast
  have "\<exists>r k. aggregate (0::nat) ''contract.pdf'' [ex_rule, ex_legal] [ex_dup, ex_audit] (3 / 2) = Inr r \<and>
          overall_risk_score r = nearest_double (of_int k / 100) \<and>
          \<bar>(of_int k / 100 :: rat) - 52 / 8\<bar> \<le> 1 / 200"
    using th[where rule_flags = "[ex_rule, ex_legal]" and llm_flags = "[ex_dup, ex_audit]",
        THEN conjunct2, THEN conjunct2, THEN conjunct2, THEN conjunct1]
    by (simp add: ex_dedup_four[simplified] ex_survivor_values)
  then obtain r k where
    r: "aggregate (0::nat) ''contract.pdf'' [ex_rule, ex_legal] [ex_dup, ex_audit] (3 / 2) = Inr r"
    and o: "overall_risk_score r = nearest_double (of_int k / 100)"
    and b: "\<bar>(of_int k / 100 :: rat) - 52 / 8\<bar> \<le> 1 / 200"
    by blast
  from b have "\<bar>(of_int k :: rat) - 650\<bar> \<le> 1 / 2" by (simp add: field_simps abs_le_iff)
  then have "\<bar>(of_int (k - 650) :: rat)\<bar> < 1" by simp
  then have "\<bar>k - 650\<bar> < 1" by (simp only: of_int_abs[symmetric] of_int_less_1_iff)
  then have "k = 650" by simp
  with o have "overall_risk_score r = nearest_double (13 / 2)" by simp
  then have o': "overall_risk_score r = 13 / 2" by (simp only: ex_nearest_650)
  have "calculate_risk_score (flags r) = Inr (overall_risk_score r)"
    using th[where rule_flags = "[ex_rule, ex_legal]" and llm_flags = "[ex_dup, ex_audit]"
        and report = r, THEN conjunct1] r by blast
  with r o' have 3: "\<exists>r. aggregate (0::nat) ''contract.pdf'' [ex_rule, ex_legal] [ex_dup, ex_audit] (3 / 2) = Inr r \<and>
          overall_risk_score r = 13 / 2 \<and>
          calculate_risk_score (flags r) = Inr (overall_risk_score r)"
    by blast
  from 1 2 3 show ?thesis by (intro conjI)
qed

text \<open>
  C2. The flags of the report are the survivors of the deduplication, sorted by
  \<open>(severityRank, -score)\<close> with the ranks CRITICAL 0, HIGH 1, MEDIUM 2, LOW 3: a flag of
  smaller rank precedes every flag of larger rank, among flags of equal severity the
  scores do not increase, and the flags that agree in severity and score keep their
  relative order after deduplication (the sort is stable).
\<close>

theorem C2_sorted_by_severity_then_score:
  "aggregate now doc rule_flags llm_flags t = Inr report \<longrightarrow>
     (\<forall>i j. i < j \<and> j < length (flags report) \<longrightarrow>
        severity_order (severity (flags report ! i)) \<le> severity_order (severity (flags report ! j))
        \<and> (severity (flags report ! i) = severity (flags report ! j) \<longrightarrow>
             score (flags report ! j) \<le> score (flags report ! i)))
   \<and> (\<forall>i j. i < length (flags report) \<and> j < length (flags report) \<and>
        severity_order (severity (flags report ! i)) < severity_order (severity (flags report ! j))
        \<longrightarrow> i < j)
   \<and> (\<forall>k. filter (\<lambda>f. flag_sort_key f = k) (flags report) =
            filter (\<lambda>f. flag_sort_key f = k) (deduplicate_flags (rule_flags @ llm_flags)))
   \<and> mset (flags report) = mset (deduplicate_flags (rule_flags @ llm_flags))"
proof
  assume "aggregate now doc rule_flags llm_flags t = Inr report"
  then have fl: "flags report = sort_flags (deduplicate_flags (rule_flags @ llm_flags))"
    by (rule aggregate_flags)
  let ?out = "flags report"
  have le: "\<And>i j. i < j \<Longrightarrow> j < length ?out \<Longrightarrow>
      flag_sort_key (?out ! i) \<le> flag_sort_key (?out ! j)"
    unfolding fl by (rule sort_flags_sorted)
  have 1: "\<forall>i j. i < j \<and> j < length ?out \<longrightarrow>
        severity_order (severity (?out ! i)) \<le> severity_order (severity (?out ! j))
        \<and> (severity (?out ! i) = severity (?out ! j) \<longrightarrow> score (?out ! j) \<le> score (?out ! i))"
    using le by (fastforce simp: flag_sort_key_le)
  have 2: "\<forall>i j. i < length ?out \<and> j < length ?out \<and>
        severity_order (severity (?out ! i)) < severity_order (severity (?out ! j)) \<longrightarrow> i < j"
  proof (intro allI impI)
    fix i j
    assume a: "i < length ?out \<and> j < length ?out \<and>
        severity_order (severity (?out ! i)) < severity_order (severity (?out ! j))"
    show "i < j"
    proof (rule ccontr)
      assume "\<not> i < j"
      with a have "j < i" by (cases "i = j") auto
      with a 1 have "severity_order (severity (?out ! j)) \<le> severity_order (severity (?out ! i))"
        by blast
      with a show False by simp
    qed
  qed
  have 3: "\<forall>k. filter (\<lambda>f. flag_sort_key f = k) ?out =
            filter (\<lambda>f. flag_sort_key f = k) (deduplicate_flags (rule_flags @ llm_flags))"
    unfolding fl sort_flags_def by (simp add: sort_key_stable)
  have 4: "mset ?out = mset (deduplicate_flags (rule_flags @ llm_flags))"
    unfolding fl sort_flags_def by simp
  from 1 2 3 4 show "(\<forall>i j. i < j \<and> j < length (flags report) \<longrightarrow>
        severity_order (severity (flags report ! i)) \<le> severity_order (severity (flags report ! j))
        \<and> (severity (flags report ! i) = severity (flags report ! j) \<longrightarrow>
             score (flags report ! j) \<le> score (flags report ! i)))
   \<and> (\<forall>i j. i < length (flags report) \<and> j < length (flags report) \<and>
        severity_order (severity (flags report ! i)) < severity_order (severity (flags report ! j))
        \<longrightarrow> i < j)
   \<and> (\<forall>k. filter (\<lambda>f. flag_sort_key f = k) (flags report) =
            filter (\<lambda>f. flag_sort_key f = k) (deduplicate_flags (rule_flags @ llm_flags)))
   \<and> mset (flags report) = mset (deduplicate_flags (rule_flags @ llm_flags))"
    by blast
qed

theorem C2_sorted_by_severity_then_score_witness:
  "\<exists>report. aggregate (0::nat) ''contract.pdf'' [ex_rule, ex_legal] [ex_dup, ex_audit] (3 / 2) = Inr report
     \<and> flags report = [ex_rule, ex_audit, ex_legal]
     \<and> severity_order (severity ex_rule) < severity_order (severity ex_audit)
     \<and> severity_order (severity ex_audit) < severity_order (severity ex_legal)
     \<and> mset (flags report) = mset (deduplicate_flags ([ex_rule, ex_legal] @ [ex_dup, ex_audit]))"
proof -
  from ex_aggregate obtain report where
    r: "aggregate (0::nat) ''contract.pdf'' [ex_rule, ex_legal] [ex_dup, ex_audit] (3 / 2) = Inr report"
    and fl: "flags report = [ex_rule, ex_audit, ex_legal]"
    by (auto split: sum.splits)
  have sev: "severity_order (severity ex_rule) < severity_order (severity ex_audit)"
      "severity_order (severity ex_audit) < severity_order (severity ex_legal)"
    by (simp_all add: ex_rule_def ex_audit_def ex_legal_def flag_of_def)
  from C2_sorted_by_severity_then_score[where now = "0::nat" and doc = "''contract.pdf''"
      and rule_flags = "[ex_rule, ex_legal]" and llm_flags = "[ex_dup, ex_audit]"
      and t = "3 / 2" and report = report] r
  have "mset (flags report) = mset (deduplicate_flags ([ex_rule, ex_legal] @ [ex_dup, ex_audit]))"
    by blast
  with r fl sev show ?thesis by blast
qed

text \<open>
  C10. The sequence that the deduplication hands to the sort is grouped by category: it
  is the concatenation of its category groups, taken in the order in which the
  categories first occur in the combined input; every category of the input has a
  group; within a group the survivors are in arrival order. This grouped order,
  and not the arrival order of the combined input, is the one the stable sort keeps
  among flags of equal severity and score.
\<close>

theorem C10_grouped_by_category:
  "deduplicate_flags (rule_flags @ llm_flags) =
     concat (map (\<lambda>c. in_category c (deduplicate_flags (rule_flags @ llm_flags)))
                 (first_occurrences (map category (rule_flags @ llm_flags))))
   \<and> (\<forall>c \<in> set (map category (rule_flags @ llm_flags)).
         in_category c (deduplicate_flags (rule_flags @ llm_flags)) \<noteq> [])
   \<and> subseq (in_category c (deduplicate_flags (rule_flags @ llm_flags)))
             (in_category c (rule_flags @ llm_flags))
   \<and> (aggregate now doc rule_flags llm_flags t = Inr report \<longrightarrow>
        filter (\<lambda>f. flag_sort_key f = k) (flags report) =
        filter (\<lambda>f. flag_sort_key f = k) (deduplicate_flags (rule_flags @ llm_flags)))"
proof (intro conjI ballI impI)
  let ?fs = "rule_flags @ llm_flags"
  show "deduplicate_flags ?fs =
     concat (map (\<lambda>c. in_category c (deduplicate_flags ?fs)) (first_occurrences (map category ?fs)))"
    by (simp only: in_category_deduplicate_flags deduplicate_flags_eq[symmetric])
  show "subseq (in_category c (deduplicate_flags ?fs)) (in_category c ?fs)"
    by (simp only: in_category_deduplicate_flags dedup_category_subseq)
  show "in_category c' (deduplicate_flags ?fs) \<noteq> []" if "c' \<in> set (map category ?fs)" for c'
  proof -
    from that have "in_category c' ?fs \<noteq> []"
      by (auto simp: in_category_def filter_empty_conv)
    then show ?thesis by (simp add: in_category_deduplicate_flags)
  qed
  show "filter (\<lambda>f. flag_sort_key f = k) (flags report) =
        filter (\<lambda>f. flag_sort_key f = k) (deduplicate_flags ?fs)"
    if "aggregate now doc rule_flags llm_flags t = Inr report"
    using aggregate_flags[OF that] by (simp add: sort_flags_def sort_key_stable)
qed

theorem C10_grouped_by_category_witness:
  "deduplicate_flags ([ex_rule, ex_legal] @ [ex_dup, ex_audit]) = [ex_rule, ex_audit, ex_legal]
   \<and> first_occurrences (map category ([ex_rule, ex_legal] @ [ex_dup, ex_audit])) = [FINANCIAL, LEGAL]
   \<and> in_category FINANCIAL (deduplicate_flags ([ex_rule, ex_legal] @ [ex_dup, ex_audit])) \<noteq> []
   \<and> subseq (in_category FINANCIAL (deduplicate_flags ([ex_rule, ex_legal] @ [ex_dup, ex_audit])))
             (in_category FINANCIAL ([ex_rule, ex_legal] @ [ex_dup, ex_audit]))"
proof -
  have fo: "first_occurrences (map category ([ex_rule, ex_legal] @ [ex_dup, ex_audit])) =
        [FINANCIAL, LEGAL]"
    by (simp add: ex_categories)
  have m: "FINANCIAL \<in> set (map category ([ex_rule, ex_legal] @ [ex_dup, ex_audit]))"
    by (simp add: ex_categories)
  note th = C10_grouped_by_category[where rule_flags = "[ex_rule, ex_legal]"
      and llm_flags = "[ex_dup, ex_audit]" and c = FINANCIAL]
  have "in_category FINANCIAL (deduplicate_flags ([ex_rule, ex_legal] @ [ex_dup, ex_audit])) \<noteq> []"
    using th[THEN conjunct2, THEN conjunct1] m by (rule bspec)
  moreover have "subseq (in_category FINANCIAL (deduplicate_flags ([ex_rule, ex_legal] @ [ex_dup, ex_audit])))
             (in_category FINANCIAL ([ex_rule, ex_legal] @ [ex_dup, ex_audit]))"
    using th[THEN conjunct2, THEN conjunct2, THEN conjunct1] .
  ultimately have "in_category FINANCIAL (deduplicate_flags ([ex_rule, ex_legal] @ [ex_dup, ex_audit])) \<noteq> []
     \<and> subseq (in_category FINANCIAL (deduplicate_flags ([ex_rule, ex_legal] @ [ex_dup, ex_audit])))
             (in_category FINANCIAL ([ex_rule, ex_legal] @ [ex_dup, ex_audit]))"
    by (rule conjI)
  with ex_dedup_four fo show ?thesis by blast
qed

section \<open>Properties of the rule engine\<close>

lemma lower_take: "lower (take n s) = take n (lower s)"
  by (simp add: lower_def take_map)

lemma length_lower [simp]: "length (lower s) = length s"
  by (simp add: lower_def)

lemma prefix_lower_matches_ci:
  assumes "prefix lit (lower s)" "lower lit = lit"
  shows "matches_ci lit s"
proof -
  from assms(1) obtain r where r: "lower s = lit @ r" by (auto simp: prefix_def)
  then have "length lit \<le> length (lower s)" by simp
  moreover have "take (length lit) (lower s) = lit" using r by simp
  ultimately show ?thesis using assms(2) by (simp add: matches_ci_def lower_take)
qed

lemma backtrack_Some: "matches_ci lit s \<Longrightarrow> \<exists>k. backtrack c lit s = Some k"
  by (induction c) simp_all

lemma match_here_Some: "matches_ci lit s \<Longrightarrow> \<exists>found. match_here lit s = Some found"
  using backtrack_Some[of lit s "dot_run s"] by (auto simp: match_here_def)

lemma search_context_Some:
  "is_substring lit (lower s) \<Longrightarrow> lower lit = lit \<Longrightarrow> \<exists>found. search_context lit s = Some found"
proof (induction s)
  case Nil
  then have "matches_ci lit []" by (simp add: lower_def matches_ci_def)
  then show ?case using match_here_Some[of lit "[]"] by simp
next
  case (Cons c cs)
  from Cons.prems(1) have "prefix lit (lower (c # cs)) \<or> is_substring lit (lower cs)"
    by (simp add: lower_def)
  then show ?case
  proof
    assume "prefix lit (lower (c # cs))"
    then have "matches_ci lit (c # cs)" using Cons.prems(2) by (rule prefix_lower_matches_ci)
    then show ?thesis using match_here_Some[of lit "c # cs"] by auto
  next
    assume "is_substring lit (lower cs)"
    then have "\<exists>found. search_context lit cs = Some found" using Cons.prems(2) by (rule Cons.IH)
    then show ?thesis by (cases "match_here lit (c # cs)") auto
  qed
qed

lemma missing_indicators_lower: "ind \<in> set missing_indicators \<Longrightarrow> lower ind = ind"
  by (auto simp: missing_indicators_def lower_def lower_char_def)

lemma missing_schedules_loop_find:
  assumes "\<And>ind. ind \<in> set inds \<Longrightarrow> lower ind = ind"
  shows "missing_schedules_loop inds doc_text fl =
     (case find (\<lambda>ind. is_substring ind (lower doc_text)) inds of
        None \<Rightarrow> fl
      | Some ind \<Rightarrow> fl @ [missing_schedule_flag ind (the (search_context ind doc_text))])"
  using assms
proof (induction inds)
  case Nil
  show ?case by simp
next
  case (Cons ind rest)
  show ?case
  proof (cases "is_substring ind (lower doc_text)")
    case True
    then obtain found where "search_context ind doc_text = Some found"
      using search_context_Some[of ind doc_text] Cons.prems[of ind] by auto
    with True show ?thesis by simp
  next
    case False
    then show ?thesis using Cons.IH Cons.prems by simp
  qed
qed

lemma missing_schedules_loop_first:
  assumes "is_substring ind (lower doc_text)" "lower ind = ind"
  shows "missing_schedules_loop (ind # rest) doc_text fl = missing_schedules_loop [ind] doc_text fl"
proof -
  obtain found where "search_context ind doc_text = Some found"
    using search_context_Some[OF assms] by auto
  with assms(1) show ?thesis by simp
qed

lemma ex_text_find:
  "find (\<lambda>ind. is_substring ind (lower ex_text)) missing_indicators = Some ''being finalized''"
  by code_simp

lemma ex_text_provided: "is_substring ''to be provided'' (lower ex_text)"
  by code_simp

lemma ex_text_search: "search_context ''being finalized'' ex_text = Some ex_text"
  by code_simp

text \<open>
  C9. The missing-schedule check appends at most one flag. The indicators are tried in
  the order of the list \<open>missing_indicators\<close>: when none of them occurs in the lowercased
  text nothing is appended; otherwise the first indicator of the list that occurs there
  (whatever its position in the text) has a match, and the one flag appended is the flag
  of that indicator, of severity CRITICAL and score 10. Once an indicator has
  occurred, the indicators after it play no part in the result.
\<close>

theorem C9_missing_schedule_once:
  "(\<exists>new. check_missing_schedules doc_text fl = fl @ new \<and> length new \<le> 1)
   \<and> (find (\<lambda>ind. is_substring ind (lower doc_text)) missing_indicators = None \<longrightarrow>
        check_missing_schedules doc_text fl = fl)
   \<and> (find (\<lambda>ind. is_substring ind (lower doc_text)) missing_indicators = Some ind \<longrightarrow>
        (\<exists>found. search_context ind doc_text = Some found \<and>
           check_missing_schedules doc_text fl = fl @ [missing_schedule_flag ind found] \<and>
           severity (missing_schedule_flag ind found) = CRITICAL \<and>
           score (missing_schedule_flag ind found) = 10))
   \<and> (is_substring ind' (lower doc_text) \<and> lower ind' = ind' \<longrightarrow>
        missing_schedules_loop (ind' # rest) doc_text fl = missing_schedules_loop [ind'] doc_text fl)"
proof -
  let ?P = "\<lambda>ind. is_substring ind (lower doc_text)"
  have eq: "check_missing_schedules doc_text fl =
     (case find ?P missing_indicators of
        None \<Rightarrow> fl
      | Some ind \<Rightarrow> fl @ [missing_schedule_flag ind (the (search_context ind doc_text))])"
    unfolding check_missing_schedules_def
    by (rule missing_schedules_loop_find) (rule missing_indicators_lower)
  have 1: "\<exists>new. check_missing_schedules doc_text fl = fl @ new \<and> length new \<le> 1"
    unfolding eq by (cases "find ?P missing_indicators") simp_all
  have 2: "find ?P missing_indicators = None \<longrightarrow> check_missing_schedules doc_text fl = fl"
    unfolding eq by simp
  have 3: "find ?P missing_indicators = Some ind \<longrightarrow>
        (\<exists>found. search_context ind doc_text = Some found \<and>
           check_missing_schedules doc_text fl = fl @ [missing_schedule_flag ind found] \<and>
           severity (missing_schedule_flag ind found) = CRITICAL \<and>
           score (missing_schedule_flag ind found) = 10)"
  proof
    assume f: "find ?P missing_indicators = Some ind"
    then have "ind \<in> set missing_indicators" and "is_substring ind (lower doc_text)"
      by (auto simp: find_Some_iff)
    then obtain found where s: "search_context ind doc_text = Some found"
      using search_context_Some[of ind doc_text] missing_indicators_lower[of ind] by auto
    have "check_missing_schedules doc_text fl = fl @ [missing_schedule_flag ind found]"
      unfolding eq using f s by simp
    with s show "\<exists>found. search_context ind doc_text = Some found \<and>
           check_missing_schedules doc_text fl = fl @ [missing_schedule_flag ind found] \<and>
           severity (missing_schedule_flag ind found) = CRITICAL \<and>
           score (missing_schedule_flag ind found) = 10"
      by (simp add: missing_schedule_flag_def)
  qed
  have 4: "is_substring ind' (lower doc_text) \<and> lower ind' = ind' \<longrightarrow>
        missing_schedules_loop (ind' # rest) doc_text fl = missing_schedules_loop [ind'] doc_text fl"
    using missing_schedules_loop_first[of ind' doc_text rest fl] by blast
  from 1 2 3 4 show ?thesis by blast
qed

theorem C9_missing_schedule_once_witness:
  "check_missing_schedules ex_text [] = [missing_schedule_flag ''being finalized'' ex_text]
   \<and> is_substring ''to be provided'' (lower ex_text)
   \<and> missing_indicators ! 0 = ''being finalized'' \<and> missing_indicators ! 1 = ''to be provided''"
proof -
  have "check_missing_schedules ex_text [] = [missing_schedule_flag ''being finalized'' ex_text]"
    using C9_missing_schedule_once[where doc_text = ex_text and fl = "[]" and ind = "''being finalized''",
        THEN conjunct2, THEN conjunct2, THEN conjunct1]
    by (simp add: ex_text_find ex_text_search)
  moreover have "missing_indicators ! 0 = ''being finalized'' \<and> missing_indicators ! 1 = ''to be provided''"
    by (simp add: missing_indicators_def)
  ultimately show ?thesis using ex_text_provided by simp
qed

lemma foldl_appending:
  assumes "\<And>a b x. step (a @ b) x = a @ step b x"
  shows "foldl step fl xs = fl @ foldl step [] xs"
proof (induction xs rule: rev_induct)
  case Nil
  show ?case by simp
next
  case (snoc x xs)
  have "foldl step fl (xs @ [x]) = step (fl @ foldl step [] xs) x"
    using snoc by simp
  also have "\<dots> = fl @ step (foldl step [] xs) x" by (rule assms)
  finally show ?case by simp
qed

lemma foldl_appending_step:
  assumes "\<And>a b x. step (a @ b) x = a @ step b x"
  shows "foldl step (a @ b) xs = a @ foldl step b xs"
  using foldl_appending[of step "a @ b" xs, OF assms] foldl_appending[of step b xs, OF assms]
  by simp

lemma check_offshore_jurisdictions_appends:
  "check_offshore_jurisdictions env doc_text fl = fl @ check_offshore_jurisdictions env doc_text []"
  unfolding check_offshore_jurisdictions_def
  by (rule foldl_appending) (rule foldl_appending_step, simp)

lemma check_weasel_words_appends:
  "check_weasel_words env doc_text fl = fl @ check_weasel_words env doc_text []"
  unfolding check_weasel_words_def
  by (rule foldl_appending) (simp split: list.splits)

lemma check_high_risk_phrases_appends:
  "check_high_risk_phrases env doc_text fl = fl @ check_high_risk_phrases env doc_text []"
  unfolding check_high_risk_phrases_def
  by (rule foldl_appending) (rule foldl_appending_step, simp)

lemma missing_schedules_loop_appends:
  "missing_schedules_loop inds doc_text fl = fl @ missing_schedules_loop inds doc_text []"
  by (induction inds) (simp_all split: option.splits)

lemma check_missing_schedules_appends:
  "check_missing_schedules doc_text fl = fl @ check_missing_schedules doc_text []"
  unfolding check_missing_schedules_def by (rule missing_schedules_loop_appends)

lemma check_date_anomalies_appends:
  "check_date_anomalies env doc_text fl = fl @ check_date_anomalies env doc_text []"
  unfolding check_date_anomalies_def
  by (rule foldl_appending) (simp add: Let_def)

lemma check_payment_red_flags_appends:
  "check_payment_red_flags env doc_text fl = fl @ check_payment_red_flags env doc_text []"
  unfolding check_payment_red_flags_def
proof (rule foldl_appending)
  fix a b :: "RedFlag list" and x :: "string \<times> string \<times> SeverityLevel \<times> int \<times> string"
  obtain pattern flag_info where x: "x = (pattern, flag_info)" by (cases x)
  show "(case x of (pattern, flag_info) \<Rightarrow>
          foldl (\<lambda>acc m. acc @ [payment_flag flag_info (match_context doc_text m)]) (a @ b)
            (finditer env (Payment pattern) doc_text)) =
        a @ (case x of (pattern, flag_info) \<Rightarrow>
          foldl (\<lambda>acc m. acc @ [payment_flag flag_info (match_context doc_text m)]) b
            (finditer env (Payment pattern) doc_text))"
    unfolding x by (simp add: foldl_appending_step)
qed

lemma check_liability_limitations_appends:
  "check_liability_limitations env doc_text fl = fl @ check_liability_limitations env doc_text []"
  unfolding check_liability_limitations_def
  by (rule foldl_appending) (simp add: Let_def)

lemma check_customer_concentration_appends:
  "check_customer_concentration env doc_text fl = fl @ check_customer_concentration env doc_text []"
  unfolding check_customer_concentration_def
  by (rule foldl_appending) (simp add: Let_def)

lemma analyze_concat:
  "fst (analyze env doc_text s) =
     check_offshore_jurisdictions env doc_text [] @ check_weasel_words env doc_text [] @
     check_high_risk_phrases env doc_text [] @ check_missing_schedules doc_text [] @
     check_date_anomalies env doc_text [] @ check_payment_red_flags env doc_text [] @
     check_liability_limitations env doc_text [] @ check_customer_concentration env doc_text []"
proof -
  let ?a = "check_offshore_jurisdictions env doc_text []"
  let ?b = "check_weasel_words env doc_text ?a"
  let ?c = "check_high_risk_phrases env doc_text ?b"
  let ?d = "check_missing_schedules doc_text ?c"
  let ?e = "check_date_anomalies env doc_text ?d"
  let ?f = "check_payment_red_flags env doc_text ?e"
  let ?g = "check_liability_limitations env doc_text ?f"
  have "fst (analyze env doc_text s) = check_customer_concentration env doc_text ?g"
    by (simp add: analyze_def Let_def)
  also have "\<dots> = ?g @ check_customer_concentration env doc_text []"
    by (rule check_customer_concentration_appends)
  also have "?g = ?f @ check_liability_limitations env doc_text []"
    by (rule check_liability_limitations_appends)
  also have "?f = ?e @ check_payment_red_flags env doc_text []"
    by (rule check_payment_red_flags_appends)
  also have "?e = ?d @ check_date_anomalies env doc_text []"
    by (rule check_date_anomalies_appends)
  also have "?d = ?c @ check_missing_schedules doc_text []"
    by (rule check_missing_schedules_appends)
  also have "?c = ?b @ check_high_risk_phrases env doc_text []"
    by (rule check_high_risk_phrases_appends)
  also have "?b = ?a @ check_weasel_words env doc_text []"
    by (rule check_weasel_words_appends)
  finally show ?thesis by simp
qed

lemma ex_analyze:
  "fst (analyze ex_env ex_text []) =
     [high_risk_flag ''to be provided'' ex_text, missing_schedule_flag ''being finalized'' ex_text]"
  by code_simp

text \<open>
  C8. The list \<open>analyze\<close> returns does not depend on the value of \<^verbatim>\<open>self.flags\<close> before the
  call: a second invocation on the same text returns the same list, an invocation after
  one on another text returns what a fresh engine returns, and the list is the
  concatenation, in the fixed order of the checks, of what each check finds starting from
  the empty list.
\<close>

theorem C8_rule_engine_stateless:
  "fst (analyze env doc_text s) = fst (analyze env doc_text s')
   \<and> fst (analyze env doc_text (snd (analyze env doc_text s))) = fst (analyze env doc_text s)
   \<and> fst (analyze env doc_text (snd (analyze env other s))) = fst (analyze env doc_text [])
   \<and> snd (analyze env doc_text s) = fst (analyze env doc_text s)
   \<and> fst (analyze env doc_text s) =
       check_offshore_jurisdictions env doc_text [] @ check_weasel_words env doc_text [] @
       check_high_risk_phrases env doc_text [] @ check_missing_schedules doc_text [] @
       check_date_anomalies env doc_text [] @ check_payment_red_flags env doc_text [] @
       check_liability_limitations env doc_text [] @ check_customer_concentration env doc_text []"
proof (intro conjI)
  show "fst (analyze env doc_text s) = fst (analyze env doc_text s')"
    by (simp only: analyze_concat)
  show "fst (analyze env doc_text (snd (analyze env doc_text s))) = fst (analyze env doc_text s)"
    by (simp only: analyze_concat)
  show "fst (analyze env doc_text (snd (analyze env other s))) = fst (analyze env doc_text [])"
    by (simp only: analyze_concat)
  show "snd (analyze env doc_text s) = fst (analyze env doc_text s)"
    by (simp add: analyze_def Let_def)
  show "fst (analyze env doc_text s) =
       check_offshore_jurisdictions env doc_text [] @ check_weasel_words env doc_text [] @
       check_high_risk_phrases env doc_text [] @ check_missing_schedules doc_text [] @
       check_date_anomalies env doc_text [] @ check_payment_red_flags env doc_text [] @
       check_liability_limitations env doc_text [] @ check_customer_concentration env doc_text []"
    by (rule analyze_concat)
qed

theorem C8_rule_engine_stateless_witness:
  "fst (analyze ex_env ex_text (snd (analyze ex_env ''Nothing of interest.'' []))) =
     [high_risk_flag ''to be provided'' ex_text, missing_schedule_flag ''being finalized'' ex_text]"
  using C8_rule_engine_stateless[where env = ex_env and doc_text = ex_text
      and other = "''Nothing of interest.''" and s = "[]",
      THEN conjunct2, THEN conjunct2, THEN conjunct1]
  by (simp only: ex_analyze)

section \<open>Properties of the response parser\<close>

lemma parse_items_append:
  "parse_items src (pre @ post) = parse_items src pre @ parse_items src post"
  by (induction pre) (simp_all split: option.splits)

lemma parse_items_length: "length (parse_items src items) \<le> length items"
  by (induction items) (simp_all split: option.splits)

lemma parse_item_bad_category:
  "map_of d ''category'' = Some v \<Longrightarrow> FlagCategory_of v = None \<Longrightarrow> parse_item src (JObj d) = None"
  by (simp add: parse_item_def dict_get_def)

lemma parse_item_bad_severity:
  "map_of d ''severity'' = Some v \<Longrightarrow> SeverityLevel_of v = None \<Longrightarrow> parse_item src (JObj d) = None"
  by (simp add: parse_item_def dict_get_def split: option.splits)

lemma parse_item_Some:
  "parse_item src (JObj d) = Some f \<Longrightarrow>
   FlagCategory_of (dict_get d ''category'' (JStr ''other'')) = Some (category f) \<and>
   SeverityLevel_of (dict_get d ''severity'' (JStr ''MEDIUM'')) = Some (severity f)"
  by (auto simp: parse_item_def split: option.splits)

lemma FlagCategory_of_other: "FlagCategory_of (JStr ''other'') = Some OTHER"
  by (simp add: FlagCategory_of_def FlagCategory_values_def)

lemma SeverityLevel_of_medium: "SeverityLevel_of (JStr ''MEDIUM'') = Some MEDIUM"
  by (simp add: SeverityLevel_of_def SeverityLevel_values_def)

lemma ex_parse_good:
  "parse_items ''claude'' [ex_item ''financial'' ''HIGH''] @ parse_items ''claude'' [ex_item ''legal'' ''LOW'']
     = [ex_item_flag FINANCIAL HIGH, ex_item_flag LEGAL LOW]"
  by code_simp

lemma ex_parse_defaults:
  "parse_item ''gpt4'' (JObj [(''title'', JStr ''Hidden liabilities'')]) =
     Some \<lparr>category = OTHER, severity = MEDIUM, title = ''Hidden liabilities'',
           description = [], location = [], score = 5, source = ''gpt4'',
           recommendation = None\<rparr>"
  by code_simp

text \<open>
  C4, as the code has it. An item whose category value is present and not in the
  category enumeration, or whose severity value is present and not in the severity
  enumeration, yields no flag: it is dropped, and the items before and after it are
  parsed as if it were not there. An item with no category key gets the category
  \<open>other\<close> and one with no severity key the severity \<open>MEDIUM\<close>. Every flag that is
  returned carries the category and the severity that its item names, so no
  unrecognized value is propagated; each item yields at most one flag and the result
  for a batch is the concatenation of the results for its items, so no item aborts the
  batch.
\<close>

theorem C4_unrecognized_values_dropped:
  "(map_of d ''category'' = Some v \<and> FlagCategory_of v = None \<longrightarrow>
      parse_items src (pre @ JObj d # post) = parse_items src pre @ parse_items src post)
   \<and> (map_of d ''severity'' = Some v \<and> SeverityLevel_of v = None \<longrightarrow>
      parse_items src (pre @ JObj d # post) = parse_items src pre @ parse_items src post)
   \<and> (map_of d ''category'' = None \<and> parse_item src (JObj d) = Some f \<longrightarrow> category f = OTHER)
   \<and> (map_of d ''severity'' = None \<and> parse_item src (JObj d) = Some f \<longrightarrow> severity f = MEDIUM)
   \<and> (parse_item src (JObj d) = Some f \<longrightarrow>
        FlagCategory_of (dict_get d ''category'' (JStr ''other'')) = Some (category f) \<and>
        SeverityLevel_of (dict_get d ''severity'' (JStr ''MEDIUM'')) = Some (severity f))
   \<and> parse_items src (pre @ item # post) =
       parse_items src pre @ parse_items src [item] @ parse_items src post
   \<and> length (parse_items src [item]) \<le> 1"
proof (intro conjI impI)
  assume "map_of d ''category'' = Some v \<and> FlagCategory_of v = None"
  then have "parse_item src (JObj d) = None" by (simp add: parse_item_bad_category)
  then show "parse_items src (pre @ JObj d # post) = parse_items src pre @ parse_items src post"
    by (simp add: parse_items_append)
next
  assume "map_of d ''severity'' = Some v \<and> SeverityLevel_of v = None"
  then have "parse_item src (JObj d) = None" by (simp add: parse_item_bad_severity)
  then show "parse_items src (pre @ JObj d # post) = parse_items src pre @ parse_items src post"
    by (simp add: parse_items_append)
next
  assume "map_of d ''category'' = None \<and> parse_item src (JObj d) = Some f"
  then show "category f = OTHER"
    using parse_item_Some[of src d f] by (simp add: dict_get_def FlagCategory_of_other)
next
  assume "map_of d ''severity'' = None \<and> parse_item src (JObj d) = Some f"
  then show "severity f = MEDIUM"
    using parse_item_Some[of src d f] by (simp add: dict_get_def SeverityLevel_of_medium)
next
  assume "parse_item src (JObj d) = Some f"
  then show "FlagCategory_of (dict_get d ''category'' (JStr ''other'')) = Some (category f)"
    and "SeverityLevel_of (dict_get d ''severity'' (JStr ''MEDIUM'')) = Some (severity f)"
    using parse_item_Some[of src d f] by simp_all
next
  show "parse_items src (pre @ item # post) =
       parse_items src pre @ parse_items src [item] @ parse_items src post"
    using parse_items_append[of src pre "item # post"] parse_items_append[of src "[item]" post]
    by simp
next
  show "length (parse_items src [item]) \<le> 1"
    using parse_items_length[of src "[item]"] by simp
qed

theorem C4_unrecognized_values_dropped_witness:
  "parse_items ''claude''
     ([ex_item ''financial'' ''HIGH''] @ ex_item ''fraud'' ''HIGH'' # [ex_item ''legal'' ''LOW''])
     = [ex_item_flag FINANCIAL HIGH, ex_item_flag LEGAL LOW]
   \<and> parse_items ''claude''
     ([ex_item ''financial'' ''HIGH''] @ ex_item ''financial'' ''SEVERE'' # [ex_item ''legal'' ''LOW''])
     = [ex_item_flag FINANCIAL HIGH, ex_item_flag LEGAL LOW]
   \<and> (\<exists>f. parse_item ''gpt4'' (JObj [(''title'', JStr ''Hidden liabilities'')]) = Some f \<and>
            category f = OTHER \<and> severity f = MEDIUM)"
proof -
  have c: "map_of (ex_dict ''fraud'' ''HIGH'') ''category'' = Some (JStr ''fraud'')"
    "FlagCategory_of (JStr ''fraud'') = None"
    by (simp_all add: ex_dict_def FlagCategory_of_def FlagCategory_values_def)
  have s: "map_of (ex_dict ''financial'' ''SEVERE'') ''severity'' = Some (JStr ''SEVERE'')"
    "SeverityLevel_of (JStr ''SEVERE'') = None"
    by (simp_all add: ex_dict_def SeverityLevel_of_def SeverityLevel_values_def)
  have 1: "parse_items ''claude''
     ([ex_item ''financial'' ''HIGH''] @ ex_item ''fraud'' ''HIGH'' # [ex_item ''legal'' ''LOW''])
     = [ex_item_flag FINANCIAL HIGH, ex_item_flag LEGAL LOW]"
    using C4_unrecognized_values_dropped[where d = "ex_dict ''fraud'' ''HIGH''"
        and v = "JStr ''fraud''" and src = "''claude''" and pre = "[ex_item ''financial'' ''HIGH'']"
        and post = "[ex_item ''legal'' ''LOW'']", THEN conjunct1] c
    by (simp only: ex_item_def[of "''fraud''" "''HIGH''", symmetric] ex_parse_good simp_thms)
  have 2: "parse_items ''claude''
     ([ex_item ''financial'' ''HIGH''] @ ex_item ''financial'' ''SEVERE'' # [ex_item ''legal'' ''LOW''])
     = [ex_item_flag FINANCIAL HIGH, ex_item_flag LEGAL LOW]"
    using C4_unrecognized_values_dropped[where d = "ex_dict ''financial'' ''SEVERE''"
        and v = "JStr ''SEVERE''" and src = "''claude''" and pre = "[ex_item ''financial'' ''HIGH'']"
        and post = "[ex_item ''legal'' ''LOW'']", THEN conjunct2, THEN conjunct1] s
    by (simp only: ex_item_def[of "''financial''" "''SEVERE''", symmetric] ex_parse_good simp_thms)
  have 3: "\<exists>f. parse_item ''gpt4'' (JObj [(''title'', JStr ''Hidden liabilities'')]) = Some f \<and>
            category f = OTHER \<and> severity f = MEDIUM"
    using ex_parse_defaults by simp
  from 1 2 3 show ?thesis by blast
qed

text \<open>
  C4 in the wording of the specification does not hold of the code: an item with an
  unrecognized category value, and an item with an unrecognized severity value, are not
  kept with a coerced value. Each is the only item of its batch here, and the batch
  yields no flag.
\<close>

theorem C4_unrecognized_values_counterexample:
  "parse_llm_data (JArr [ex_item ''fraud'' ''HIGH'']) ''claude'' = []
   \<and> parse_llm_data (JArr [ex_item ''financial'' ''SEVERE'']) ''claude'' = []"
  by code_simp

end
